theory Spec2Isabelle
  imports Main "HOL-Library.Multiset"
begin

section \<open>Python strings and dictionaries\<close>

text \<open>
  A Python \<open>str\<close> is modelled as a \<open>string\<close> (a list of 8-bit characters), so the model
  covers the strings whose code points are below 256. A candidate, an attribute mapping and
  every other \<open>Dict[str, str]\<close> of the source is an association list in insertion order
  (Python dictionaries iterate in insertion order); \<open>map_of\<close> is the lookup.
\<close>

type_synonym pydict = "(string \<times> string) list"

text \<open>\<open>d.get(k, default)\<close>\<close>

definition dict_get :: "pydict \<Rightarrow> string \<Rightarrow> string \<Rightarrow> string" where
  "dict_get d k dflt = (case map_of d k of None \<Rightarrow> dflt | Some v \<Rightarrow> v)"

text \<open>\<open>s.startswith(p)\<close>\<close>

fun startswith :: "string \<Rightarrow> string \<Rightarrow> bool" where
  "startswith [] s = True"
| "startswith (p # ps) [] = False"
| "startswith (p # ps) (c # cs) = (p = c \<and> startswith ps cs)"

text \<open>\<open>sub in s\<close>: substring search, left to right.\<close>

fun py_in :: "string \<Rightarrow> string \<Rightarrow> bool" where
  "py_in sub [] = (sub = [])"
| "py_in sub (c # cs) = (startswith sub (c # cs) \<or> py_in sub cs)"

text \<open>
  \<open>s.count(sub)\<close> for a non-empty \<open>sub\<close>: the number of non-overlapping occurrences, scanning
  from the left. The second argument of \<open>count_from\<close> is the number of characters of the
  occurrence found last that are still to be skipped.
\<close>

fun count_from :: "string \<Rightarrow> nat \<Rightarrow> string \<Rightarrow> int" where
  "count_from sub k [] = 0"
| "count_from sub k (c # cs) =
     (if 0 < k then count_from sub (k - 1) cs
      else if startswith sub (c # cs) then 1 + count_from sub (length sub - 1) cs
      else count_from sub 0 cs)"

definition py_count :: "string \<Rightarrow> string \<Rightarrow> int" where
  "py_count sub s = count_from sub 0 s"

text \<open>
  \<open>str.isspace\<close> on one character, for code points below 256: tab to carriage return, the
  four separators 28 to 31, space, next line (133) and no-break space (160).
\<close>

definition is_space :: "char \<Rightarrow> bool" where
  "is_space c =
     (let n = (of_char c :: nat)
      in (9 \<le> n \<and> n \<le> 13) \<or> (28 \<le> n \<and> n \<le> 32) \<or> n = 133 \<or> n = 160)"

text \<open>\<open>s.strip()\<close>\<close>

definition strip :: "string \<Rightarrow> string" where
  "strip s = rev (dropWhile is_space (rev (dropWhile is_space s)))"

text \<open>
  \<open>s.lower()\<close> for code points below 256: the ASCII capitals and the Latin-1 capitals
  (192 to 222 without the multiplication sign 215) move up by 32.
\<close>

definition lower_char :: "char \<Rightarrow> char" where
  "lower_char c =
     (let n = (of_char c :: nat)
      in if (65 \<le> n \<and> n \<le> 90) \<or> (192 \<le> n \<and> n \<le> 222 \<and> n \<noteq> 215)
         then char_of (n + 32) else c)"

definition lower :: "string \<Rightarrow> string" where
  "lower s = map lower_char s"

datatype py_error = IndexError | KeyError

text \<open>
  \<open>s.split()[0]\<close>: the first whitespace-separated token; \<open>split()\<close> of an empty or
  all-whitespace string is the empty list, and indexing it raises \<open>IndexError\<close>.
\<close>

definition split_first :: "string \<Rightarrow> py_error + string" where
  "split_first s =
     (case dropWhile is_space s of
        [] \<Rightarrow> Inl IndexError
      | c # cs \<Rightarrow> Inr (takeWhile (\<lambda>x. \<not> is_space x) (c # cs)))"

section \<open>SelectorManager (web\_selectors/selector\_manager.py)\<close>

subsection \<open>The score of a candidate\<close>

text \<open>
  The local function \<open>score\<close> of \<open>rank_selectors\<close>, statement by statement: the variable
  \<open>s\<close> starts at 0 and every \<open>if\<close> of the source rebinds it.
\<close>

definition score :: "pydict \<Rightarrow> int" where
  \<open>score cand =
    (let s = 0;
         sel = dict_get cand ''selector'' '''';
         text = dict_get cand ''text'' '''';
         s = (if startswith ''#'' (strip sel) then s + 100 else s);
         s = (if py_in ''data-testid'' sel \<or> py_in ''data-test'' sel then s + 90 else s);
         s = (if py_in ''name='' sel \<or> py_in ''for='' sel then s + 80 else s);
         s = (if py_in ''aria-label'' sel then s + 70 else s);
         s = (if py_in ''[role='' sel then s + 65 else s);
         s = (if py_in ''data-'' sel then s + 60 else s);
         s = (if text \<noteq> [] \<and>
                 (py_in ''button'' (lower sel) \<or> py_in ''a['' sel \<or> py_in ''link'' (lower sel))
              then s + 55 else s);
         s = (if py_count ''.'' sel = 1 then s + 50
              else if py_count ''.'' sel > 1 then s + 40 else s);
         s = (if py_in ''nth-child'' sel \<or> py_in ''nth-of-type'' sel then s + 30 else s);
         s = (if text \<noteq> [] \<and> py_in (''text()="'' @ text @ ''"'') sel then s + 45
              else if text \<noteq> [] \<and> py_in ''contains(text()'' sel then s + 35 else s);
         s = (if int (length sel) > 150 then s - 20 else s);
         s = (if py_count ''/'' sel > 5 then s - 15 else s);
         s = (if py_count '' > '' sel > 3 then s - 15 else s)
     in s)\<close>

subsection \<open>Ranking\<close>

text \<open>
  \<open>sorted(candidates, key=lambda c: -score(c))\<close>. Python's \<open>sorted\<close> is a stable sort by
  the key; \<open>sort_key\<close> is the stable insertion sort of the HOL library.
\<close>

definition rank_selectors :: "pydict list \<Rightarrow> pydict list" where
  "rank_selectors candidates = sort_key (\<lambda>c. - score c) candidates"

definition choose_best :: "pydict list \<Rightarrow> pydict option" where
  "choose_best candidates =
     (case rank_selectors candidates of [] \<Rightarrow> None | c # _ \<Rightarrow> Some c)"

subsection \<open>A selector from a tag and its attributes\<close>

text \<open>
  \<open>generate_selector_from_attrs\<close>. The loop \<open>for k in attrs\<close> returns at the first key
  that starts with \<open>data-\<close>; \<open>next(iter(attrs.items()))\<close> is the first item.
\<close>

definition generate_selector_from_attrs :: "string \<Rightarrow> pydict \<Rightarrow> py_error + string" where
  "generate_selector_from_attrs tag attrs =
     (case map_of attrs ''id'' of
        Some v \<Rightarrow> Inr (tag @ ''#'' @ v)
      | None \<Rightarrow>
     (case find (\<lambda>(k, v). startswith ''data-'' k) attrs of
        Some (k, v) \<Rightarrow> Inr (tag @ ''['' @ k @ ''='' @ [CHR 0x27] @ v @ [CHR 0x27] @ '']'')
      | None \<Rightarrow>
     (case map_of attrs ''aria-label'' of
        Some v \<Rightarrow> Inr (tag @ ''[aria-label='' @ [CHR 0x27] @ v @ [CHR 0x27] @ '']'')
      | None \<Rightarrow>
     (case map_of attrs ''name'' of
        Some v \<Rightarrow> Inr (tag @ ''[name='' @ [CHR 0x27] @ v @ [CHR 0x27] @ '']'')
      | None \<Rightarrow>
     (case map_of attrs ''class'' of
        Some v \<Rightarrow>
          (case split_first v of
             Inl e \<Rightarrow> Inl e
           | Inr cls \<Rightarrow> Inr (tag @ ''.'' @ cls))
      | None \<Rightarrow>
     (case attrs of
        (k, v) # _ \<Rightarrow> Inr (tag @ ''['' @ k @ ''='' @ [CHR 0x27] @ v @ [CHR 0x27] @ '']'')
      | [] \<Rightarrow> Inr tag))))))"

section \<open>The resolver: \_try\_selectors (agents/orchestrator.py)\<close>

subsection \<open>The browser, the LLM client and the log\<close>

text \<open>
  Every awaited call on Playwright or on the LLM client either returns or raises. What
  it answers is not decided by the repository, so the calls are the fields of an
  environment \<open>env\<close> over a world \<open>'w\<close> that each call may change; \<open>'e\<close> is the type of
  element handles. \<open>urljoin\<close> (urllib) is a field too.
\<close>

datatype 'a res = Raises | Returns 'a

datatype wait_until = NetworkIdle | DomContentLoaded

record ('w, 'e) playwright =
  pw_start :: "'w \<Rightarrow> unit res \<times> 'w"
  pw_stop :: "'w \<Rightarrow> 'w"
  launch :: "'w \<Rightarrow> unit res \<times> 'w"
  new_context :: "'w \<Rightarrow> unit res \<times> 'w"
  new_page :: "'w \<Rightarrow> unit res \<times> 'w"
  set_viewport_size :: "'w \<Rightarrow> unit res \<times> 'w"
  request_fullscreen :: "'w \<Rightarrow> unit res \<times> 'w"
  goto :: "string \<Rightarrow> wait_until \<Rightarrow> 'w \<Rightarrow> unit res \<times> 'w"
  sleep :: "'w \<Rightarrow> 'w"
  content :: "'w \<Rightarrow> string res \<times> 'w"
  page_url :: "'w \<Rightarrow> string"
  wait_for_selector :: "string \<Rightarrow> 'w \<Rightarrow> 'e option res \<times> 'w"
  is_visible :: "'e \<Rightarrow> 'w \<Rightarrow> bool res \<times> 'w"
  is_enabled :: "'e \<Rightarrow> 'w \<Rightarrow> bool res \<times> 'w"
  bounding_box :: "'e \<Rightarrow> 'w \<Rightarrow> bool res \<times> 'w"
  get_attribute_href :: "'e \<Rightarrow> 'w \<Rightarrow> string option res \<times> 'w"
  click :: "'e \<Rightarrow> 'w \<Rightarrow> unit res \<times> 'w"
  wait_for_load_state :: "'w \<Rightarrow> 'w"
  browser_close :: "'w \<Rightarrow> unit res \<times> 'w"
  raw_completion :: "string \<Rightarrow> 'w \<Rightarrow> (string \<times> string) list res \<times> 'w"
  urljoin :: "string \<Rightarrow> string \<Rightarrow> string"

text \<open>
  \<^item> \<open>pw_start\<close>, \<open>pw_stop\<close>: entering and leaving \<open>async with async_playwright()\<close>; leaving
    stops the Playwright driver and with it any browser still open.
  \<^item> \<open>bounding_box\<close> answers whether the box is truthy (a box, not \<open>None\<close>).
  \<^item> \<open>wait_for_load_state\<close> and \<open>sleep\<close> only change the world: the source swallows what
    the first raises, and the second does not fail.
  \<^item> \<open>raw_completion\<close> stands for the \<open>try\<close> block of \<open>_get_llm_selectors\<close> up to the parsed
    JSON: a list of (selector, type) pairs, or any exception on the way.
\<close>

text \<open>The log of the calls made, oldest first.\<close>

datatype event =
    PlaywrightStart bool
  | PlaywrightStop
  | BrowserLaunch bool
  | BrowserClose bool
  | NewContext
  | NewPage
  | SetViewportSize
  | RequestFullscreen
  | Goto string wait_until
  | Sleep
  | PageContent "string option"
  | RawCompletion string
  | WaitForSelector string
  | IsVisible string
  | IsEnabled string
  | BoundingBox string
  | GetAttributeHref string
  | Click string "string option"
  | WaitForLoadState
  | UrlAfterClick string string string

text \<open>
  \<^item> \<open>PlaywrightStart ok\<close>, \<open>BrowserLaunch ok\<close>, \<open>BrowserClose ok\<close>: the call was made, and \<open>ok\<close>
    tells whether it returned.
  \<^item> \<open>Click sel href\<close>: \<open>element.click\<close> is called on the element found by \<open>sel\<close>, whose
    \<open>href\<close> attribute was read as \<open>href\<close>.
  \<^item> \<open>UrlAfterClick sel pre_click_url nav_url\<close>: the two readings of \<open>page.url\<close> around a
    click that returned.
  \<^item> \<open>PageContent html\<close>: \<open>page.content()\<close> was called; \<open>Some\<close> of the markup when it
    returned, \<open>None\<close> when it raised.
\<close>

record 'w ctx =
  world :: 'w
  selector_cache :: "string \<rightharpoonup> pydict list"
  events :: "event list"

definition emit :: "event \<Rightarrow> 'w ctx \<Rightarrow> 'w ctx" where
  "emit e c = c\<lparr>events := events c @ [e]\<rparr>"

text \<open>
  The keys of \<open>GraphState\<close> (a \<open>TypedDict\<close> with \<open>total=False\<close>: a key may be absent) that
  the resolver reads or writes.
\<close>

record graph_state =
  already_clicked :: "string list option"
  visited_urls :: "string list option"
  current_url :: "string option"

text \<open>\<open>state.get(key, [])\<close>\<close>

definition get_list :: "string list option \<Rightarrow> string list" where
  "get_list v = (case v of None \<Rightarrow> [] | Some xs \<Rightarrow> xs)"

text \<open>
  The dictionary returned on success; its \<open>browser\<close> and \<open>page\<close> handles are not modelled.
\<close>

record nav_result =
  nav_url :: string
  nav_html :: string
  nav_selector :: string

subsection \<open>\_get\_llm\_selectors (lines 118 to 170)\<close>

definition get_llm_selectors ::
  "('w, 'e) playwright \<Rightarrow> string \<Rightarrow> string \<Rightarrow> 'w ctx \<Rightarrow> pydict list \<times> 'w ctx" where
  "get_llm_selectors env html button_text c =
     (case selector_cache c button_text of
        Some cached \<Rightarrow> (cached, c)
      | None \<Rightarrow>
          (case raw_completion env button_text (world c) of
             (Raises, w) \<Rightarrow> ([], emit (RawCompletion button_text) (c\<lparr>world := w\<rparr>))
           | (Returns selectors, w) \<Rightarrow>
               (let formatted_selectors =
                      map (\<lambda>(sel, ty). [(''selector'', sel), (''text'', button_text),
                                         (''source'', ''llm''), (''selector_type'', ty)])
                        selectors
                in (formatted_selectors,
                    emit (RawCompletion button_text)
                      (c\<lparr>world := w,
                         selector_cache := (selector_cache c)(button_text \<mapsto> formatted_selectors)\<rparr>)))))"

subsection \<open>Synthesis of the selector strategies of one candidate (lines 483 to 555)\<close>

text \<open>\<open>{"selector": sel, "text": text}\<close>\<close>

definition strategy :: "string \<Rightarrow> string \<Rightarrow> pydict" where
  "strategy text sel = [(''selector'', sel), (''text'', text)]"

text \<open>\<open>f'[{attr}="{value}"]'\<close>\<close>

definition attr_selector :: "string \<Rightarrow> string \<Rightarrow> string" where
  \<open>attr_selector attr v = ''['' @ attr @ ''="'' @ v @ ''"]''\<close>

text \<open>\<open>for attr in names: if attr in s: ...append(f'[{attr}="{s[attr]}"]')\<close>\<close>

definition named_attrs :: "string \<Rightarrow> pydict \<Rightarrow> string list \<Rightarrow> pydict list" where
  "named_attrs text s names =
     concat (map (\<lambda>attr. case map_of s attr of
                            Some v \<Rightarrow> [strategy text (attr_selector attr v)]
                          | None \<Rightarrow> []) names)"

text \<open>
  The list \<open>element_selectors\<close> built for the candidate \<open>s\<close>, where \<open>llm_selectors\<close> is what
  \<open>_get_llm_selectors\<close> returned for its text.
\<close>

definition synthesize :: "pydict list \<Rightarrow> pydict \<Rightarrow> pydict list" where
  \<open>synthesize llm_selectors s =
    (let text = dict_get s ''text'' '''';
         element_selectors = (if text \<noteq> [] then llm_selectors else []);
         element_selectors = element_selectors @
           (case map_of s ''selector'' of
              Some base_sel \<Rightarrow> if base_sel \<noteq> [] then [strategy text base_sel] else []
            | None \<Rightarrow> []);
         element_selectors = element_selectors @
           (if text \<noteq> [] then
              [strategy text (''//button[contains(text(),"'' @ text @ ''")]''),
               strategy text (''//a[contains(text(),"'' @ text @ ''")]''),
               strategy text (''//input[@value="'' @ text @ ''"]''),
               strategy text (''//*[text()="'' @ text @ ''"]''),
               strategy text (''a:has-text("'' @ text @ ''")''),
               strategy text (''button:has-text("'' @ text @ ''")''),
               strategy text (''[role="button"]:has-text("'' @ text @ ''")''),
               strategy text (''//*[contains(text(),"'' @ text @ ''")]''),
               strategy text (''//*[normalize-space()="'' @ text @ ''"]''),
               strategy text (''[title="'' @ text @ ''"]'')]
            else []);
         element_selectors = element_selectors @
           map (\<lambda>(attr, v). strategy text (attr_selector attr v))
             (filter (\<lambda>(attr, v). attr \<in> set [''data-testid'', ''data-test'', ''data-qa'']) s);
         element_selectors = element_selectors @
           named_attrs text s [''aria-label'', ''role'', ''title''];
         element_selectors = element_selectors @
           named_attrs text s [''name'', ''for'', ''placeholder''];
         element_selectors = element_selectors @
           map (\<lambda>(attr, v). strategy text (attr_selector attr v))
             (filter (\<lambda>(attr, v). startswith ''data-'' attr) s);
         element_selectors = element_selectors @
           (if text \<noteq> [] then
              (case map_of s ''role'' of
                 Some role \<Rightarrow>
                   [strategy text (''[role="'' @ role @ ''"][text()="'' @ text @ ''"]'')]
               | None \<Rightarrow> [])
            else [])
     in element_selectors)\<close>

subsection \<open>One selector string (lines 560 to 631)\<close>

text \<open>
  The body of the inner loop is split in three at the points where it goes on with an
  element: the probe, the validation of the element with the visited-URL check, and the
  click with the comparison of the URL. A result \<open>None\<close> is a \<open>continue\<close> (or the end of
  the body), \<open>Some r\<close> is the \<open>return\<close> of line 619. Every exception inside the \<open>try\<close> of
  line 565 ends in the \<open>continue\<close> of line 631.
\<close>

text \<open>
  Lines 611 to 617: \<open>state.setdefault(key, []).append(...)\<close> on the two lists, and the
  assignment of \<open>current_url\<close>.
\<close>

definition record_navigation :: "string \<Rightarrow> string \<Rightarrow> graph_state \<Rightarrow> graph_state" where
  "record_navigation sel nav st =
     st\<lparr>already_clicked := Some (get_list (already_clicked st) @ [sel]),
        visited_urls := Some (get_list (visited_urls st) @ [nav]),
        current_url := Some nav\<rparr>"

text \<open>Lines 588 to 627: the click, and whether it navigated.\<close>

definition click_element ::
  "('w, 'e) playwright \<Rightarrow> string \<Rightarrow> 'e \<Rightarrow> string option \<Rightarrow> graph_state \<Rightarrow> 'w ctx
     \<Rightarrow> nav_result option \<times> graph_state \<times> 'w ctx" where
  "click_element env sel element href st c =
     (let pre_click_url = page_url env (world c);
          c = emit (Click sel href) c
      in case click env element (world c) of
           (Raises, w) \<Rightarrow> (None, st, c\<lparr>world := w\<rparr>)
         | (Returns _, w) \<Rightarrow>
             (let c = emit WaitForLoadState (c\<lparr>world := wait_for_load_state env w\<rparr>);
                  nav = page_url env (world c);
                  c = emit (UrlAfterClick sel pre_click_url nav) c
              in if nav \<noteq> pre_click_url then
                   (case content env (world c) of
                      (Raises, w) \<Rightarrow> (None, st, emit (PageContent None) (c\<lparr>world := w\<rparr>))
                    | (Returns html, w) \<Rightarrow>
                        (Some \<lparr>nav_url = nav, nav_html = html, nav_selector = sel\<rparr>,
                         record_navigation sel nav st,
                         emit (PageContent (Some html)) (c\<lparr>world := w\<rparr>)))
                 else (None, st, c)))"

text \<open>Lines 570 to 586: the state of the element and the visited-URL check.\<close>

definition check_element ::
  "('w, 'e) playwright \<Rightarrow> string \<Rightarrow> string list \<Rightarrow> string \<Rightarrow> 'e \<Rightarrow> graph_state \<Rightarrow> 'w ctx
     \<Rightarrow> nav_result option \<times> graph_state \<times> 'w ctx" where
  "check_element env url visited sel element st c =
     (case is_visible env element (world c) of
        (Raises, w) \<Rightarrow> (None, st, emit (IsVisible sel) (c\<lparr>world := w\<rparr>))
      | (Returns visible, w) \<Rightarrow>
     (let c = emit (IsVisible sel) (c\<lparr>world := w\<rparr>)
      in case is_enabled env element (world c) of
        (Raises, w) \<Rightarrow> (None, st, emit (IsEnabled sel) (c\<lparr>world := w\<rparr>))
      | (Returns enabled, w) \<Rightarrow>
     (let c = emit (IsEnabled sel) (c\<lparr>world := w\<rparr>)
      in case bounding_box env element (world c) of
        (Raises, w) \<Rightarrow> (None, st, emit (BoundingBox sel) (c\<lparr>world := w\<rparr>))
      | (Returns bbox, w) \<Rightarrow>
     (let c = emit (BoundingBox sel) (c\<lparr>world := w\<rparr>)
      in if visible \<and> enabled \<and> bbox then
           (case get_attribute_href env element (world c) of
              (Raises, w) \<Rightarrow> (None, st, emit (GetAttributeHref sel) (c\<lparr>world := w\<rparr>))
            | (Returns href, w) \<Rightarrow>
                (let c = emit (GetAttributeHref sel) (c\<lparr>world := w\<rparr>)
                 in case href of
                      None \<Rightarrow> click_element env sel element href st c
                    | Some h \<Rightarrow>
                        if h \<noteq> [] \<and> urljoin env url h \<in> set visited then (None, st, c)
                        else click_element env sel element href st c))
         else (None, st, c)))))"

text \<open>Lines 560 to 569: the skip of a selector already clicked, and the probe.\<close>

definition try_one ::
  "('w, 'e) playwright \<Rightarrow> string \<Rightarrow> string list \<Rightarrow> string list \<Rightarrow> string \<Rightarrow> graph_state
     \<Rightarrow> 'w ctx \<Rightarrow> nav_result option \<times> graph_state \<times> 'w ctx" where
  "try_one env url already visited sel st c =
     (if sel \<in> set already then (None, st, c)
      else
        (case wait_for_selector env sel (world c) of
           (Raises, w) \<Rightarrow> (None, st, emit (WaitForSelector sel) (c\<lparr>world := w\<rparr>))
         | (Returns None, w) \<Rightarrow> (None, st, emit (WaitForSelector sel) (c\<lparr>world := w\<rparr>))
         | (Returns (Some element), w) \<Rightarrow>
             check_element env url visited sel element st
               (emit (WaitForSelector sel) (c\<lparr>world := w\<rparr>))))"

subsection \<open>The two loops (lines 481 to 631)\<close>

text \<open>
  A loop ends with \<open>Returns (Some r)\<close> at the \<open>return\<close> of line 619, with \<open>Returns None\<close>
  when its list is used up, and with \<open>Raises\<close> when \<open>sel_dict["selector"]\<close> (line 560,
  outside the \<open>try\<close>) meets a dictionary without that key.
\<close>

fun try_sorted ::
  "('w, 'e) playwright \<Rightarrow> string \<Rightarrow> string list \<Rightarrow> string list \<Rightarrow> pydict list \<Rightarrow> graph_state
     \<Rightarrow> 'w ctx \<Rightarrow> nav_result option res \<times> graph_state \<times> 'w ctx" where
  "try_sorted env url already visited [] st c = (Returns None, st, c)"
| "try_sorted env url already visited (sel_dict # rest) st c =
     (case map_of sel_dict ''selector'' of
        None \<Rightarrow> (Raises, st, c)
      | Some sel \<Rightarrow>
          (case try_one env url already visited sel st c of
             (Some r, st', c') \<Rightarrow> (Returns (Some r), st', c')
           | (None, st', c') \<Rightarrow> try_sorted env url already visited rest st' c'))"

text \<open>Lines 484 to 489: the LLM helper is asked only for a candidate with a text.\<close>

definition llm_for ::
  "('w, 'e) playwright \<Rightarrow> string \<Rightarrow> pydict \<Rightarrow> 'w ctx \<Rightarrow> pydict list \<times> 'w ctx" where
  "llm_for env html s c =
     (let text = dict_get s ''text'' ''''
      in if text \<noteq> [] then get_llm_selectors env html text c else ([], c))"

fun try_ranked ::
  "('w, 'e) playwright \<Rightarrow> string \<Rightarrow> string list \<Rightarrow> string list \<Rightarrow> string \<Rightarrow> pydict list
     \<Rightarrow> graph_state \<Rightarrow> 'w ctx \<Rightarrow> nav_result option res \<times> graph_state \<times> 'w ctx" where
  "try_ranked env url already visited html [] st c = (Returns None, st, c)"
| "try_ranked env url already visited html (s # rest) st c =
     (case llm_for env html s c of
        (llm_selectors, c1) \<Rightarrow>
          (case try_sorted env url already visited
                  (rank_selectors (synthesize llm_selectors s)) st c1 of
             (Returns None, st', c') \<Rightarrow> try_ranked env url already visited html rest st' c'
           | (Returns (Some r), st', c') \<Rightarrow> (Returns (Some r), st', c')
           | (Raises, st', c') \<Rightarrow> (Raises, st', c')))"

subsection \<open>The page load and the session (lines 448 to 635)\<close>

text \<open>
  Lines 453 to 473, up to the handler: \<open>True\<close> when the page is loaded, \<open>False\<close> when an
  exception reached \<open>except Exception\<close> of line 470.
\<close>

definition load_page :: "('w, 'e) playwright \<Rightarrow> string \<Rightarrow> 'w ctx \<Rightarrow> bool \<times> 'w ctx" where
  "load_page env url c =
     (case set_viewport_size env (world c) of
        (Raises, w) \<Rightarrow> (False, emit SetViewportSize (c\<lparr>world := w\<rparr>))
      | (Returns _, w) \<Rightarrow>
     (let c = emit SetViewportSize (c\<lparr>world := w\<rparr>)
      in case request_fullscreen env (world c) of
        (Raises, w) \<Rightarrow> (False, emit RequestFullscreen (c\<lparr>world := w\<rparr>))
      | (Returns _, w) \<Rightarrow>
     (let c = emit RequestFullscreen (c\<lparr>world := w\<rparr>)
      in case goto env url NetworkIdle (world c) of
        (Returns _, w) \<Rightarrow> (True, emit (Goto url NetworkIdle) (c\<lparr>world := w\<rparr>))
      | (Raises, w) \<Rightarrow>
     (let c = emit (Goto url NetworkIdle) (c\<lparr>world := w\<rparr>)
      in case goto env url DomContentLoaded (world c) of
        (Raises, w) \<Rightarrow> (False, emit (Goto url DomContentLoaded) (c\<lparr>world := w\<rparr>))
      | (Returns _, w) \<Rightarrow>
          (True, emit Sleep (emit (Goto url DomContentLoaded) (c\<lparr>world := sleep env w\<rparr>)))))))"

text \<open>\<open>await browser.close()\<close> followed by the end of the call with \<open>None\<close> (lines 472 and 633).\<close>

definition close_and_return_none ::
  "('w, 'e) playwright \<Rightarrow> graph_state \<Rightarrow> 'w ctx
     \<Rightarrow> nav_result option res \<times> graph_state \<times> 'w ctx" where
  "close_and_return_none env st c =
     (case browser_close env (world c) of
        (Raises, w) \<Rightarrow> (Raises, st, emit (BrowserClose False) (c\<lparr>world := w\<rparr>))
      | (Returns _, w) \<Rightarrow> (Returns None, st, emit (BrowserClose True) (c\<lparr>world := w\<rparr>)))"

text \<open>Lines 475 to 635: with the page loaded.\<close>

definition resolve_on_page ::
  "('w, 'e) playwright \<Rightarrow> string \<Rightarrow> pydict list \<Rightarrow> string list \<Rightarrow> string list
     \<Rightarrow> graph_state \<Rightarrow> 'w ctx \<Rightarrow> nav_result option res \<times> graph_state \<times> 'w ctx" where
  "resolve_on_page env url selectors already visited st c =
     (case content env (world c) of
        (Raises, w) \<Rightarrow> (Raises, st, emit (PageContent None) (c\<lparr>world := w\<rparr>))
      | (Returns html, w) \<Rightarrow>
          (case try_ranked env url already visited html (rank_selectors selectors) st
                  (emit (PageContent (Some html)) (c\<lparr>world := w\<rparr>)) of
             (Returns None, st', c') \<Rightarrow> close_and_return_none env st' c'
           | (Returns (Some r), st', c') \<Rightarrow> (Returns (Some r), st', c')
           | (Raises, st', c') \<Rightarrow> (Raises, st', c')))"

text \<open>
  The body of the \<open>async with\<close> (lines 449 to 635). The three calls before the \<open>try\<close> are
  not guarded: what they raise leaves the call.
\<close>

definition session ::
  "('w, 'e) playwright \<Rightarrow> string \<Rightarrow> pydict list \<Rightarrow> string list \<Rightarrow> string list
     \<Rightarrow> graph_state \<Rightarrow> 'w ctx \<Rightarrow> nav_result option res \<times> graph_state \<times> 'w ctx" where
  "session env url selectors already visited st c =
     (case launch env (world c) of
        (Raises, w) \<Rightarrow> (Raises, st, emit (BrowserLaunch False) (c\<lparr>world := w\<rparr>))
      | (Returns _, w) \<Rightarrow>
     (let c = emit (BrowserLaunch True) (c\<lparr>world := w\<rparr>)
      in case new_context env (world c) of
        (Raises, w) \<Rightarrow> (Raises, st, emit NewContext (c\<lparr>world := w\<rparr>))
      | (Returns _, w) \<Rightarrow>
     (let c = emit NewContext (c\<lparr>world := w\<rparr>)
      in case new_page env (world c) of
        (Raises, w) \<Rightarrow> (Raises, st, emit NewPage (c\<lparr>world := w\<rparr>))
      | (Returns _, w) \<Rightarrow>
     (case load_page env url (emit NewPage (c\<lparr>world := w\<rparr>)) of
        (False, c) \<Rightarrow> close_and_return_none env st c
      | (True, c) \<Rightarrow> resolve_on_page env url selectors already visited st c))))"

subsection \<open>\_try\_selectors (lines 434 to 635)\<close>

text \<open>
  The call starts with the world \<open>w\<close>, the orchestrator's selector cache and an empty log.
  \<open>not_clicked\<close> is the test \<open>s.get("selector") not in already_clicked\<close> of line 443: it
  keeps a candidate without the key, since \<open>None\<close> is no member of a set of strings. Leaving the \<open>async with\<close> runs \<open>pw_stop\<close> on
  every way out of its body, a \<open>return\<close> or an exception.
\<close>

definition not_clicked :: "string list \<Rightarrow> pydict \<Rightarrow> bool" where
  "not_clicked already s =
     (case map_of s ''selector'' of None \<Rightarrow> True | Some v \<Rightarrow> v \<notin> set already)"

definition try_selectors ::
  "('w, 'e) playwright \<Rightarrow> string \<Rightarrow> pydict list \<Rightarrow> graph_state \<Rightarrow> (string \<rightharpoonup> pydict list)
     \<Rightarrow> 'w \<Rightarrow> nav_result option res \<times> graph_state \<times> 'w ctx" where
  "try_selectors env url selectors st cache w =
     (let c = \<lparr>world = w, selector_cache = cache, events = []\<rparr>
      in if url = [] \<or> selectors = [] then (Returns None, st, c)
         else
           (let already = get_list (already_clicked st);
                visited = get_list (visited_urls st);
                selectors = filter (not_clicked already) selectors
            in if selectors = [] then (Returns None, st, c)
               else
                 (case pw_start env (world c) of
                    (Raises, w) \<Rightarrow> (Raises, st, emit (PlaywrightStart False) (c\<lparr>world := w\<rparr>))
                  | (Returns _, w) \<Rightarrow>
                      (case session env url selectors already visited st
                              (emit (PlaywrightStart True) (c\<lparr>world := w\<rparr>)) of
                         (r, st', c') \<Rightarrow>
                           (r, st', emit PlaywrightStop (c'\<lparr>world := pw_stop env (world c')\<rparr>))))))"

text \<open>The parts of what a call gives back.\<close>

definition outcome :: "'a \<times> 'b \<times> 'c \<Rightarrow> 'a" where
  "outcome r = fst r"

definition state_after :: "'a \<times> graph_state \<times> 'c \<Rightarrow> graph_state" where
  "state_after r = fst (snd r)"

definition log_of :: "'a \<times> 'b \<times> 'w ctx \<Rightarrow> event list" where
  "log_of r = events (snd (snd r))"


section \<open>The score table of the spec, and concrete inputs\<close>

text \<open>
  The score table as the spec words it (section 4.2, "apply all that match"): every signal
  is applied on its own, the selector is read as it stands, the test-id signal covers
  \<open>data-testid\<close>, \<open>data-test\<close> and \<open>data-qa\<close>, and the two text predicates are both
  applied when both match.
\<close>

definition claimed_score :: "pydict \<Rightarrow> int" where
  \<open>claimed_score cand =
    (let sel = dict_get cand ''selector'' '''';
         text = dict_get cand ''text'' ''''
     in (if startswith ''#'' sel then 100 else 0)
      + (if py_in ''data-testid'' sel \<or> py_in ''data-test'' sel \<or> py_in ''data-qa'' sel
         then 90 else 0)
      + (if py_in ''name='' sel \<or> py_in ''for='' sel then 80 else 0)
      + (if py_in ''aria-label'' sel then 70 else 0)
      + (if py_in ''[role='' sel then 65 else 0)
      + (if py_in ''data-'' sel then 60 else 0)
      + (if text \<noteq> [] \<and>
            (py_in ''button'' (lower sel) \<or> py_in ''a['' sel \<or> py_in ''link'' (lower sel))
         then 55 else 0)
      + (if py_count ''.'' sel = 1 then 50 else 0)
      + (if py_count ''.'' sel > 1 then 40 else 0)
      + (if py_in ''nth-child'' sel \<or> py_in ''nth-of-type'' sel then 30 else 0)
      + (if text \<noteq> [] \<and> py_in (''text()="'' @ text @ ''"'') sel then 45 else 0)
      + (if text \<noteq> [] \<and> py_in ''contains(text()'' sel then 35 else 0)
      - (if int (length sel) > 150 then 20 else 0)
      - (if py_count ''/'' sel > 5 then 15 else 0)
      - (if py_count '' > '' sel > 3 then 15 else 0))\<close>

text \<open>A candidate whose selector holds both text predicates, for the label \<open>Go\<close>.\<close>

definition both_text_predicates :: pydict where
  \<open>both_text_predicates =
     [(''selector'', ''//*[text()="Go" or contains(text(),"Go")]''), (''text'', ''Go'')]\<close>

subsection \<open>A small site\<close>

text \<open>
  A world is the number of clicks that returned. The site has the page \<open>http://site/\<close>, on
  which every selector finds a visible, enabled link to \<open>/apply\<close>; a click on it leads to
  \<open>http://site/apply\<close>. The LLM client is out of reach. The flag tells whether reading the
  markup fails once the page has been left (Playwright refuses \<open>page.content()\<close> while the
  page is navigating). \<open>urljoin\<close> is given on the inputs that occur.
\<close>

definition site :: "bool \<Rightarrow> (nat, string) playwright" where
  "site content_fails =
     \<lparr>pw_start = (\<lambda>w. (Returns (), w)),
      pw_stop = (\<lambda>w. w),
      launch = (\<lambda>w. (Returns (), w)),
      new_context = (\<lambda>w. (Returns (), w)),
      new_page = (\<lambda>w. (Returns (), w)),
      set_viewport_size = (\<lambda>w. (Returns (), w)),
      request_fullscreen = (\<lambda>w. (Returns (), w)),
      goto = (\<lambda>u wu w. (Returns (), w)),
      sleep = (\<lambda>w. w),
      content = (\<lambda>w. (if content_fails \<and> 0 < w then Raises else Returns ''<html></html>'', w)),
      page_url = (\<lambda>w. if w = 0 then ''http://site/'' else ''http://site/apply''),
      wait_for_selector = (\<lambda>sel w. (Returns (Some sel), w)),
      is_visible = (\<lambda>e w. (Returns True, w)),
      is_enabled = (\<lambda>e w. (Returns True, w)),
      bounding_box = (\<lambda>e w. (Returns True, w)),
      get_attribute_href = (\<lambda>e w. (Returns (Some ''/apply''), w)),
      click = (\<lambda>e w. (Returns (), Suc w)),
      wait_for_load_state = (\<lambda>w. w),
      browser_close = (\<lambda>w. (Returns (), w)),
      raw_completion = (\<lambda>t w. (Raises, w)),
      urljoin = (\<lambda>base h. ''http://site'' @ h)\<rparr>"

definition fresh_state :: graph_state where
  "fresh_state = \<lparr>already_clicked = Some [], visited_urls = Some [''http://site/''],
                   current_url = None\<rparr>"

definition go_button :: "pydict list" where
  "go_button = [[(''selector'', ''#go'')]]"


definition clicked_state :: graph_state where
  "clicked_state = \<lparr>already_clicked = Some [''#go''], visited_urls = Some [''http://site/''],
                     current_url = None\<rparr>"


definition two_buttons :: "pydict list" where
  "two_buttons = [[(''selector'', ''#go'')], [(''selector'', ''#other'')]]"

text \<open>
  The same site with another \<open>href\<close> on its links, and \<open>urljoin\<close> as urllib computes it for
  an empty reference and for a relative one against a base that ends in a slash.
\<close>

definition site_with_href :: "string \<Rightarrow> (nat, string) playwright" where
  "site_with_href h =
     (site False)
       \<lparr>get_attribute_href := (\<lambda>e w. (Returns (Some h), w)),
        urljoin := (\<lambda>base ref. if ref = [] then base else base @ ref)\<rparr>"

section \<open>Reading the log\<close>

text \<open>
  What a call may do to a selector: it probes and clicks only selectors that were not in
  \<open>already_clicked\<close> at entry, and it clicks an element only if its \<open>href\<close> is absent, empty
  or resolves (with \<open>urljoin\<close>, against the URL of the call) outside \<open>visited_urls\<close>.
\<close>

fun permitted ::
  "(string \<Rightarrow> string \<Rightarrow> string) \<Rightarrow> string \<Rightarrow> string list \<Rightarrow> string list \<Rightarrow> event \<Rightarrow> bool" where
  "permitted uj url already visited (WaitForSelector s) = (s \<notin> set already)"
| "permitted uj url already visited (Click s href) =
     (s \<notin> set already \<and>
      (case href of None \<Rightarrow> True | Some h \<Rightarrow> h = [] \<or> uj url h \<notin> set visited))"
| "permitted uj url already visited e = True"

definition all_permitted ::
  "('w, 'e) playwright \<Rightarrow> string \<Rightarrow> string list \<Rightarrow> string list \<Rightarrow> 'w ctx \<Rightarrow> bool" where
  "all_permitted env url already visited c =
     list_all (permitted (urljoin env) url already visited) (events c)"

text \<open>
  The state after a step that ended with \<open>r\<close>: the navigation is recorded when \<open>r\<close> is a
  navigation result, and nothing is changed otherwise.
\<close>

definition committed :: "nav_result option res \<Rightarrow> graph_state \<Rightarrow> graph_state \<Rightarrow> bool" where
  "committed r st st' =
     (case r of
        Returns (Some n) \<Rightarrow> st' = record_navigation (nav_selector n) (nav_url n) st
      | _ \<Rightarrow> st' = st)"

text \<open>
  The calls of a log that acquire or release the session and the browser, in their order.
\<close>

fun is_lifecycle :: "event \<Rightarrow> bool" where
  "is_lifecycle (PlaywrightStart ok) = True"
| "is_lifecycle PlaywrightStop = True"
| "is_lifecycle (BrowserLaunch ok) = True"
| "is_lifecycle (BrowserClose ok) = True"
| "is_lifecycle e = False"

definition lifecycle :: "event list \<Rightarrow> event list" where
  "lifecycle evs = filter is_lifecycle evs"


text \<open>
  The navigations a log confirms: a reading of \<open>page.url\<close> after a click that differs from
  the one before it, directly followed by a \<open>page.content()\<close> that returned. \<open>prev\<close> is the
  event before \<open>e\<close>, if any.
\<close>

definition confirmed_step :: "event option \<Rightarrow> event \<Rightarrow> nav_result list" where
  "confirmed_step prev e =
     (case e of
        PageContent (Some html) \<Rightarrow>
          (case prev of
             Some (UrlAfterClick sel pre_click_url nav) \<Rightarrow>
               if nav \<noteq> pre_click_url
               then [\<lparr>nav_url = nav, nav_html = html, nav_selector = sel\<rparr>] else []
           | _ \<Rightarrow> [])
      | _ \<Rightarrow> [])"

fun navigations_from :: "event option \<Rightarrow> event list \<Rightarrow> nav_result list" where
  "navigations_from prev [] = []"
| "navigations_from prev (e # es) = confirmed_step prev e @ navigations_from (Some e) es"

definition navigations :: "event list \<Rightarrow> nav_result list" where
  "navigations evs = navigations_from None evs"

text \<open>The selectors a log probes, in their order.\<close>

fun probe_of :: "event \<Rightarrow> string list" where
  "probe_of (WaitForSelector sel) = [sel]"
| "probe_of e = []"

definition probes :: "event list \<Rightarrow> string list" where
  "probes evs = concat (map probe_of evs)"

text \<open>
  The order in which a call is to probe. For one candidate these are the selectors of its
  ranked strategies that are not in \<open>already_clicked\<close>; for the call, the candidates are
  taken in their ranked order, each with what the LLM helper answered for it.
\<close>

definition planned_selectors :: "string list \<Rightarrow> pydict list \<Rightarrow> string list" where
  "planned_selectors already ds =
     concat (map (\<lambda>d. case map_of d ''selector'' of
                          Some sel \<Rightarrow> if sel \<in> set already then [] else [sel]
                        | None \<Rightarrow> []) ds)"

definition plan :: "string list \<Rightarrow> (pydict list \<times> pydict) list \<Rightarrow> string list" where
  "plan already answered =
     concat (map (\<lambda>(llm_selectors, s).
                    planned_selectors already (rank_selectors (synthesize llm_selectors s)))
               answered)"

text \<open>
  The result of a step as a list of navigations: the navigation when the step ends with
  one, and nothing when it ends with no result or raises.
\<close>

definition result_list :: "nav_result option res \<Rightarrow> nav_result list" where
  "result_list r = (case r of Returns (Some n) \<Rightarrow> [n] | _ \<Rightarrow> [])"

text \<open>
  \<open>new\<close> is what a step has probed, in the order of the plan \<open>planned\<close>: a prefix of it, all
  of it when the step ends with no result, and up to the selector of the result otherwise.
\<close>

definition follows_plan ::
  "nav_result option res \<Rightarrow> string list \<Rightarrow> string list \<Rightarrow> bool" where
  "follows_plan r new planned =
     ((\<exists>rest. planned = new @ rest \<and> (r = Returns None \<longrightarrow> rest = [])) \<and>
      (\<forall>n. r = Returns (Some n) \<longrightarrow> new \<noteq> [] \<and> last new = nav_selector n))"

text \<open>
  The same over a call, which may end with no result before it has probed anything, when
  the page does not load: the plan is followed to its end by a call that ends with no
  result and whose log \<open>evs\<close> shows a \<open>page.content()\<close>.
\<close>

definition follows_plan_if_loaded ::
  "nav_result option res \<Rightarrow> event list \<Rightarrow> string list \<Rightarrow> string list \<Rightarrow> bool" where
  "follows_plan_if_loaded r evs new planned =
     ((\<exists>rest. planned = new @ rest \<and>
          (r = Returns None \<and> (\<exists>h. PageContent h \<in> set evs) \<longrightarrow> rest = [])) \<and>
      (\<forall>n. r = Returns (Some n) \<longrightarrow> new \<noteq> [] \<and> last new = nav_selector n))"


section \<open>What the string functions compute\<close>

lemma startswith_iff: "startswith p s \<longleftrightarrow> (\<exists>q. s = p @ q)"
  by (induction p s rule: startswith.induct) auto

lemma py_in_iff: "py_in sub s \<longleftrightarrow> (\<exists>p q. s = p @ sub @ q)"
proof (induction s)
  case Nil
  show ?case by auto
next
  case (Cons c cs)
  have "(\<exists>p q. c # cs = p @ sub @ q) \<longleftrightarrow>
        (\<exists>q. c # cs = sub @ q) \<or> (\<exists>p q. cs = p @ sub @ q)"
  proof
    assume "\<exists>p q. c # cs = p @ sub @ q"
    then obtain p q where pq: "c # cs = p @ sub @ q" by blast
    show "(\<exists>q. c # cs = sub @ q) \<or> (\<exists>p q. cs = p @ sub @ q)"
    proof (cases p)
      case Nil
      with pq show ?thesis by auto
    next
      case (Cons a p')
      with pq have "cs = p' @ sub @ q" by simp
      then show ?thesis by blast
    qed
  next
    assume "(\<exists>q. c # cs = sub @ q) \<or> (\<exists>p q. cs = p @ sub @ q)"
    then show "\<exists>p q. c # cs = p @ sub @ q"
    proof
      assume "\<exists>q. c # cs = sub @ q"
      then obtain q where "c # cs = [] @ sub @ q" by auto
      then show ?thesis by blast
    next
      assume "\<exists>p q. cs = p @ sub @ q"
      then obtain p q where "c # cs = (c # p) @ sub @ q" by auto
      then show ?thesis by blast
    qed
  qed
  with Cons show ?case by (simp add: startswith_iff)
qed

lemma count_from_char: "count_from [c] 0 s = int (count_list s c)"
  by (induction s) auto

lemma py_count_char: "py_count [c] s = int (count_list s c)"
  by (simp add: py_count_def count_from_char)

lemma count_from_nonneg: "0 \<le> count_from sub k s"
  by (induction sub k s rule: count_from.induct) auto

section \<open>The ranker and the selector generator\<close>

lemmas string_evals =
  dict_get_def py_count_def strip_def lower_def lower_char_def is_space_def Let_def

text \<open>
  C1, as stated, fails: on a selector that holds the exact text predicate and the substring
  predicate the source applies +45 only (the second test is an \<open>elif\<close>), where the claim
  applies both and gives 80.
\<close>

theorem score_both_text_predicates:
  "score both_text_predicates = 45 \<and> claimed_score both_text_predicates = 80"
  by (simp add: score_def claimed_score_def both_text_predicates_def string_evals)

lemma bump_plus: "(if c then s + k else s) = s + (if c then k else (0::int))"
  by simp

lemma bump_minus: "(if c then s - k else s) = s - (if c then k else (0::int))"
  by simp

lemma bump_elif: "(if a then s + j else s + x) = s + (if a then j else (x::int))"
  by simp

lemma class_signal:
  "(if n = 1 then 50 else if n > 1 then 40 else (0::int)) =
   (if n = 1 then 50 else 0) + (if (n::int) > 1 then 40 else 0)"
  by simp

text \<open>
  C1, amended: the score is the sum of the signals below. The identifier signal looks at
  the selector with surrounding whitespace stripped, the test-id signal is \<open>data-testid\<close>
  or \<open>data-test\<close>, the class signals count the dots of the selector, the substring text
  signal (+35) is applied only when the exact text signal (+45) is not, and the path and
  combinator penalties count the occurrences of \<open>/\<close> and of \<open> > \<close>. Selectors that
  mention \<open>data-qa\<close> are left out of the statement.
\<close>

theorem score_additive:
  assumes "sel = dict_get cand ''selector'' ''''"
    and "text = dict_get cand ''text'' ''''"
    and "\<not> py_in ''data-qa'' sel"
  shows \<open>score cand =
        (if startswith ''#'' (strip sel) then 100 else 0)
      + (if py_in ''data-testid'' sel \<or> py_in ''data-test'' sel then 90 else 0)
      + (if py_in ''name='' sel \<or> py_in ''for='' sel then 80 else 0)
      + (if py_in ''aria-label'' sel then 70 else 0)
      + (if py_in ''[role='' sel then 65 else 0)
      + (if py_in ''data-'' sel then 60 else 0)
      + (if text \<noteq> [] \<and>
            (py_in ''button'' (lower sel) \<or> py_in ''a['' sel \<or> py_in ''link'' (lower sel))
         then 55 else 0)
      + (if int (count_list sel CHR ''.'') = 1 then 50 else 0)
      + (if int (count_list sel CHR ''.'') > 1 then 40 else 0)
      + (if py_in ''nth-child'' sel \<or> py_in ''nth-of-type'' sel then 30 else 0)
      + (if text \<noteq> [] \<and> py_in (''text()="'' @ text @ ''"'') sel then 45
         else if text \<noteq> [] \<and> py_in ''contains(text()'' sel then 35 else 0)
      - (if int (length sel) > 150 then 20 else 0)
      - (if int (count_list sel CHR ''/'') > 5 then 15 else 0)
      - (if py_count '' > '' sel > 3 then 15 else 0)\<close>
  unfolding score_def Let_def assms(1,2)[symmetric] bump_elif bump_plus bump_minus
    class_signal py_count_char
  by (simp only: add_0)

text \<open>The amended C1 at a button selector with a \<open>data-test\<close> attribute and a label.\<close>

theorem score_additive_witness:
  \<open>\<not> py_in ''data-qa'' ''button[data-test='go']'' \<and>
   score [(''selector'', ''button[data-test='go']''), (''text'', ''Go'')] = 90 + 60 + 55\<close>
proof -
  have h: \<open>\<not> py_in ''data-qa'' ''button[data-test='go']''\<close> by simp
  have s: \<open>''button[data-test='go']'' =
           dict_get [(''selector'', ''button[data-test='go']''), (''text'', ''Go'')] ''selector'' ''''\<close>
    by (simp add: dict_get_def)
  have t: \<open>''Go'' =
           dict_get [(''selector'', ''button[data-test='go']''), (''text'', ''Go'')] ''text'' ''''\<close>
    by (simp add: dict_get_def)
  have v: \<open>score [(''selector'', ''button[data-test='go']''), (''text'', ''Go'')] = 90 + 60 + 55\<close>
    unfolding score_additive [OF s t h] by (simp add: string_evals)
  from h v show ?thesis by (rule conjI)
qed

text \<open>
  C2: \<open>rank_selectors\<close> is a function of the candidate list alone (the score reads nothing
  but the candidate), its result is in descending order of score, candidates of equal
  score keep their input order, and no candidate is lost or added.
\<close>

theorem rank_selectors_stable_descending:
  "sorted_wrt (\<lambda>a b. score a \<ge> score b) (rank_selectors cs) \<and>
   (\<forall>k. filter (\<lambda>c. score c = k) (rank_selectors cs) = filter (\<lambda>c. score c = k) cs) \<and>
   mset (rank_selectors cs) = mset cs"
proof -
  have "sorted (map (\<lambda>c. - score c) (rank_selectors cs))"
    by (simp add: rank_selectors_def)
  then have d: "sorted_wrt (\<lambda>a b. score a \<ge> score b) (rank_selectors cs)"
    by (simp add: sorted_map)
  have s: "filter (\<lambda>c. score c = k) (rank_selectors cs) = filter (\<lambda>c. score c = k) cs" for k
    using sort_key_stable [of "\<lambda>c. - score c" "- k" cs]
    by (simp add: rank_selectors_def)
  show ?thesis using d s by (simp add: rank_selectors_def)
qed

text \<open>
  What \<open>generate_selector_from_attrs\<close> does return starts with the tag, and it raises only
  when the \<open>class\<close> attribute has no token.
\<close>

lemma startswith_append: "startswith tag (tag @ rest)"
  by (simp add: startswith_iff)

lemma generate_selector_starts_with_tag:
  "generate_selector_from_attrs tag attrs = Inr sel \<Longrightarrow> startswith tag sel"
  unfolding generate_selector_from_attrs_def
  by (auto simp: startswith_append startswith_iff
      split: option.splits prod.splits sum.splits list.splits)

lemma split_first_raises: "split_first v = Inl e \<Longrightarrow> list_all is_space v"
  unfolding split_first_def
  by (cases "dropWhile is_space v") (simp_all add: list_all_iff dropWhile_eq_Nil_conv)

lemma generate_selector_raises:
  assumes "generate_selector_from_attrs tag attrs = Inl e"
  shows "\<exists>v. map_of attrs ''class'' = Some v \<and> list_all is_space v"
proof (cases "map_of attrs ''class''")
  case None
  with assms show ?thesis
    unfolding generate_selector_from_attrs_def
    by (simp split: option.splits prod.splits list.splits)
next
  case (Some v)
  with assms have "\<exists>e. split_first v = Inl e"
    unfolding generate_selector_from_attrs_def
    by (simp split: option.splits prod.splits sum.splits)
  with Some show ?thesis by (auto dest: split_first_raises)
qed

text \<open>
  C10 fails on the source: a \<open>class\<close> attribute with no token (an empty class, as in
  \<open><div class="">\<close>) that is reached by the priority chain runs
  \<open>attrs["class"].split()[0]\<close>, which raises \<open>IndexError\<close>, so no selector is returned.
\<close>

theorem generate_selector_empty_class:
  "generate_selector_from_attrs ''div'' [(''class'', '''')] = Inl IndexError"
  by (simp add: generate_selector_from_attrs_def split_first_def)


section \<open>The resolver: lemmas\<close>

subsection \<open>Every event of a call is permitted\<close>

lemma all_permitted_emit [simp]:
  "all_permitted env url already visited (emit e c) \<longleftrightarrow>
   all_permitted env url already visited c \<and> permitted (urljoin env) url already visited e"
  by (simp add: all_permitted_def emit_def)

lemma all_permitted_world [simp]:
  "all_permitted env url already visited (c\<lparr>world := w\<rparr>) = all_permitted env url already visited c"
  by (simp add: all_permitted_def)

lemma all_permitted_cache [simp]:
  "all_permitted env url already visited (c\<lparr>selector_cache := k\<rparr>) = all_permitted env url already visited c"
  by (simp add: all_permitted_def)

lemma click_element_permitted:
  assumes "click_element env sel el href st c = (r, st', c')"
    and "all_permitted env url already visited c"
    and "permitted (urljoin env) url already visited (Click sel href)"
  shows "all_permitted env url already visited c'"
  using assms unfolding click_element_def
  by (auto simp: Let_def split: prod.splits res.splits if_splits)

lemma check_element_permitted:
  assumes "check_element env url visited sel el st c = (r, st', c')"
    and "all_permitted env url already visited c"
    and "sel \<notin> set already"
  shows "all_permitted env url already visited c'"
  using assms unfolding check_element_def
  by (auto simp: Let_def split: prod.splits res.splits if_splits option.splits
      dest!: click_element_permitted [where url = url and already = already and visited = visited])

lemma try_one_permitted:
  assumes "try_one env url already visited sel st c = (r, st', c')"
    and "all_permitted env url already visited c"
  shows "all_permitted env url already visited c'"
  using assms unfolding try_one_def
  by (auto split: prod.splits res.splits if_splits option.splits
      dest!: check_element_permitted [where already = already])

lemma try_sorted_permitted:
  "try_sorted env url already visited ds st c = (r, st', c') \<Longrightarrow>
   all_permitted env url already visited c \<Longrightarrow> all_permitted env url already visited c'"
proof (induction ds arbitrary: st c)
  case Nil
  then show ?case by simp
next
  case (Cons d ds)
  show ?case
  proof (cases "map_of d ''selector''")
    case None
    with Cons.prems show ?thesis by simp
  next
    case (Some sel)
    obtain r1 st1 c1 where one: "try_one env url already visited sel st c = (r1, st1, c1)"
      by (cases "try_one env url already visited sel st c") auto
    then have p1: "all_permitted env url already visited c1"
      using Cons.prems(2) by (rule try_one_permitted)
    show ?thesis
    proof (cases r1)
      case None
      with Cons.prems(1) Some one
      have "try_sorted env url already visited ds st1 c1 = (r, st', c')" by simp
      then show ?thesis using p1 by (rule Cons.IH)
    next
      case (Some n)
      with Cons.prems(1) \<open>map_of d ''selector'' = Some sel\<close> one have "c' = c1" by simp
      with p1 show ?thesis by simp
    qed
  qed
qed

lemma get_llm_selectors_permitted:
  "get_llm_selectors env html t c = (l, c') \<Longrightarrow>
   all_permitted env url already visited c \<Longrightarrow> all_permitted env url already visited c'"
  unfolding get_llm_selectors_def
  by (auto simp: Let_def split: option.splits prod.splits res.splits)

lemma llm_for_permitted:
  "llm_for env html s c = (l, c') \<Longrightarrow>
   all_permitted env url already visited c \<Longrightarrow> all_permitted env url already visited c'"
  unfolding llm_for_def
  by (auto simp: Let_def split: if_splits dest: get_llm_selectors_permitted)

lemma try_ranked_permitted:
  "try_ranked env url already visited html ss st c = (r, st', c') \<Longrightarrow>
   all_permitted env url already visited c \<Longrightarrow> all_permitted env url already visited c'"
proof (induction ss arbitrary: st c)
  case Nil
  then show ?case by simp
next
  case (Cons s ss)
  obtain l c1 where llm: "llm_for env html s c = (l, c1)"
    by (cases "llm_for env html s c") auto
  then have p1: "all_permitted env url already visited c1"
    using Cons.prems(2) by (rule llm_for_permitted)
  obtain r2 st2 c2 where
    srt: "try_sorted env url already visited (rank_selectors (synthesize l s)) st c1 = (r2, st2, c2)"
    by (cases "try_sorted env url already visited (rank_selectors (synthesize l s)) st c1") auto
  then have p2: "all_permitted env url already visited c2"
    using p1 by (rule try_sorted_permitted)
  show ?case
  proof (cases "r2 = Returns None")
    case True
    with Cons.prems(1) llm srt
    have "try_ranked env url already visited html ss st2 c2 = (r, st', c')" by simp
    then show ?thesis using p2 by (rule Cons.IH)
  next
    case False
    with Cons.prems(1) llm srt have "c' = c2"
      by (cases r2) (auto split: option.splits)
    with p2 show ?thesis by simp
  qed
qed

lemma load_page_permitted:
  "load_page env url c = (ok, c') \<Longrightarrow>
   all_permitted env url already visited c \<Longrightarrow> all_permitted env url already visited c'"
  unfolding load_page_def
  by (auto simp: Let_def split: prod.splits res.splits)

lemma close_permitted:
  "close_and_return_none env st c = (r, st', c') \<Longrightarrow>
   all_permitted env url already visited c \<Longrightarrow> all_permitted env url already visited c'"
  unfolding close_and_return_none_def
  by (auto split: prod.splits res.splits)

lemma resolve_on_page_permitted:
  "resolve_on_page env url sels already visited st c = (r, st', c') \<Longrightarrow>
   all_permitted env url already visited c \<Longrightarrow> all_permitted env url already visited c'"
  unfolding resolve_on_page_def
  by (auto split: prod.splits res.splits option.splits
      dest: try_ranked_permitted close_permitted)

lemma session_permitted:
  "session env url sels already visited st c = (r, st', c') \<Longrightarrow>
   all_permitted env url already visited c \<Longrightarrow> all_permitted env url already visited c'"
  unfolding session_def
  by (auto simp: Let_def split: prod.splits res.splits bool.splits
      dest!: load_page_permitted [where already = already and visited = visited]
      dest: resolve_on_page_permitted close_permitted)

lemma all_permitted_init [simp]:
  "all_permitted env url already visited \<lparr>world = w, selector_cache = k, events = []\<rparr>"
  by (simp add: all_permitted_def)

lemma try_selectors_permitted:
  "list_all (permitted (urljoin env) url (get_list (already_clicked st)) (get_list (visited_urls st)))
     (log_of (try_selectors env url sels st cache w))"
proof -
  let ?a = "get_list (already_clicked st)" and ?v = "get_list (visited_urls st)"
  let ?R = "try_selectors env url sels st cache w"
  obtain r st' c' where R: "?R = (r, st', c')" by (cases ?R) auto
  have "all_permitted env url ?a ?v c'"
    using R unfolding try_selectors_def
    by (auto simp: Let_def split: if_splits prod.splits res.splits
        dest!: session_permitted [where already = ?a and visited = ?v])
  then show ?thesis using R by (simp add: all_permitted_def log_of_def)
qed

subsection \<open>The state changes with a navigation result only\<close>

lemma click_element_state:
  "click_element env sel el href st c = (r, st', c') \<Longrightarrow> committed (Returns r) st st'"
  unfolding click_element_def committed_def
  by (auto simp: Let_def split: prod.splits res.splits if_splits)

lemma check_element_state:
  "check_element env url visited sel el st c = (r, st', c') \<Longrightarrow> committed (Returns r) st st'"
  unfolding check_element_def
  by (auto simp: Let_def committed_def [where r = "Returns None"]
      split: prod.splits res.splits if_splits option.splits dest: click_element_state)

lemma try_one_state:
  "try_one env url already visited sel st c = (r, st', c') \<Longrightarrow> committed (Returns r) st st'"
  unfolding try_one_def
  by (auto simp: committed_def [where r = "Returns None"]
      split: prod.splits res.splits if_splits option.splits dest: check_element_state)

lemma committed_None: "committed (Returns None) st st' \<longleftrightarrow> st' = st"
  by (simp add: committed_def)

lemma committed_Raises: "committed Raises st st' \<longleftrightarrow> st' = st"
  by (simp add: committed_def)

lemma try_sorted_state:
  "try_sorted env url already visited ds st c = (r, st', c') \<Longrightarrow> committed r st st'"
proof (induction ds arbitrary: st c)
  case Nil
  then show ?case by (auto simp: committed_None)
next
  case (Cons d ds)
  show ?case
  proof (cases "map_of d ''selector''")
    case None
    with Cons.prems show ?thesis by (auto simp: committed_Raises)
  next
    case (Some sel)
    obtain r1 st1 c1 where one: "try_one env url already visited sel st c = (r1, st1, c1)"
      by (cases "try_one env url already visited sel st c") auto
    from one have s1: "committed (Returns r1) st st1" by (rule try_one_state)
    show ?thesis
    proof (cases r1)
      case None
      with Cons.prems Some one
      have "try_sorted env url already visited ds st1 c1 = (r, st', c')" by simp
      then have "committed r st1 st'" by (rule Cons.IH)
      moreover from s1 None have "st1 = st" by (simp add: committed_None)
      ultimately show ?thesis by simp
    next
      case (Some n)
      with Cons.prems \<open>map_of d ''selector'' = Some sel\<close> one
      have "r = Returns r1" and "st' = st1" by simp_all
      with s1 show ?thesis by simp
    qed
  qed
qed

lemma try_ranked_state:
  "try_ranked env url already visited html ss st c = (r, st', c') \<Longrightarrow> committed r st st'"
proof (induction ss arbitrary: st c)
  case Nil
  then show ?case by (auto simp: committed_None)
next
  case (Cons s ss)
  obtain l c1 where llm: "llm_for env html s c = (l, c1)"
    by (cases "llm_for env html s c") auto
  obtain r2 st2 c2 where
    srt: "try_sorted env url already visited (rank_selectors (synthesize l s)) st c1 = (r2, st2, c2)"
    by (cases "try_sorted env url already visited (rank_selectors (synthesize l s)) st c1") auto
  then have s2: "committed r2 st st2" by (rule try_sorted_state)
  show ?case
  proof (cases "r2 = Returns None")
    case True
    with Cons.prems llm srt
    have "try_ranked env url already visited html ss st2 c2 = (r, st', c')" by simp
    then have "committed r st2 st'" by (rule Cons.IH)
    moreover from s2 True have "st2 = st" by (simp add: committed_None)
    ultimately show ?thesis by simp
  next
    case False
    with Cons.prems llm srt have "r = r2" and "st' = st2"
      by (cases r2; auto split: option.splits)+
    with s2 show ?thesis by simp
  qed
qed

lemma close_state:
  "close_and_return_none env st c = (r, st', c') \<Longrightarrow> committed r st st'"
  unfolding close_and_return_none_def
  by (auto simp: committed_None committed_Raises split: prod.splits res.splits)

lemma resolve_on_page_state:
  "resolve_on_page env url sels already visited st c = (r, st', c') \<Longrightarrow> committed r st st'"
  unfolding resolve_on_page_def
  by (auto simp: committed_None committed_Raises split: prod.splits res.splits option.splits
      dest!: try_ranked_state close_state)

lemma session_state:
  "session env url sels already visited st c = (r, st', c') \<Longrightarrow> committed r st st'"
  unfolding session_def
  by (auto simp: Let_def committed_None committed_Raises split: prod.splits res.splits bool.splits
      dest: resolve_on_page_state close_state)

lemma try_selectors_state:
  "committed (outcome (try_selectors env url sels st cache w)) st
     (state_after (try_selectors env url sels st cache w))"
  unfolding try_selectors_def outcome_def state_after_def
  by (auto simp: Let_def committed_None committed_Raises split: prod.splits res.splits
      dest: session_state)

subsection \<open>The session and the browser along a call\<close>

lemma world_emit [simp]: "world (emit e c) = world c"
  by (simp add: emit_def)

lemma lifecycle_emit [simp]:
  "lifecycle (events (emit e c)) = lifecycle (events c) @ (if is_lifecycle e then [e] else [])"
  by (simp add: lifecycle_def emit_def)

lemma lifecycle_world [simp]: "lifecycle (events (c\<lparr>world := w\<rparr>)) = lifecycle (events c)"
  by simp

lemma lifecycle_cache [simp]: "lifecycle (events (c\<lparr>selector_cache := k\<rparr>)) = lifecycle (events c)"
  by simp












subsection \<open>The navigations of the log are the result\<close>

lemma navigations_from_snoc:
  "navigations_from prev (evs @ [e]) =
     navigations_from prev evs @ confirmed_step (if evs = [] then prev else Some (last evs)) e"
  by (induction evs arbitrary: prev) auto

lemma navigations_snoc:
  "navigations (evs @ [e]) =
     navigations evs @ confirmed_step (if evs = [] then None else Some (last evs)) e"
  by (simp add: navigations_def navigations_from_snoc)

lemma navigations_from_append:
  "navigations_from prev (xs @ ys) =
     navigations_from prev xs @ navigations_from (if xs = [] then prev else Some (last xs)) ys"
  by (induction xs arbitrary: prev) auto

lemma navigations_append:
  "navigations (xs @ ys) =
     navigations xs @ navigations_from (if xs = [] then None else Some (last xs)) ys"
  by (simp add: navigations_def navigations_from_append)

lemma navigations_emit:
  "navigations (events (emit e c)) =
     navigations (events c) @
     confirmed_step (if events c = [] then None else Some (last (events c))) e"
  by (simp add: emit_def navigations_snoc)

lemma confirmed_step_simps [simp]:
  "confirmed_step prev (PlaywrightStart ok) = []"
  "confirmed_step prev PlaywrightStop = []"
  "confirmed_step prev (BrowserLaunch ok) = []"
  "confirmed_step prev (BrowserClose ok) = []"
  "confirmed_step prev NewContext = []"
  "confirmed_step prev NewPage = []"
  "confirmed_step prev SetViewportSize = []"
  "confirmed_step prev RequestFullscreen = []"
  "confirmed_step prev (Goto u wu) = []"
  "confirmed_step prev Sleep = []"
  "confirmed_step prev (PageContent None) = []"
  "confirmed_step prev (RawCompletion t) = []"
  "confirmed_step prev (WaitForSelector s) = []"
  "confirmed_step prev (IsVisible s) = []"
  "confirmed_step prev (IsEnabled s) = []"
  "confirmed_step prev (BoundingBox s) = []"
  "confirmed_step prev (GetAttributeHref s) = []"
  "confirmed_step prev (Click s h) = []"
  "confirmed_step prev WaitForLoadState = []"
  "confirmed_step prev (UrlAfterClick s a b) = []"
  "confirmed_step (Some (UrlAfterClick s a b)) (PageContent (Some html)) =
     (if b \<noteq> a then [\<lparr>nav_url = b, nav_html = html, nav_selector = s\<rparr>] else [])"
  by (simp_all add: confirmed_step_def)

lemma result_list_simps [simp]:
  "result_list (Returns None) = []" "result_list Raises = []" "result_list (Returns (Some n)) = [n]"
  by (simp_all add: result_list_def)

lemma click_element_navigations:
  "click_element env sel el href st c = (r, st', c') \<Longrightarrow>
   navigations (events c') = navigations (events c) @ result_list (Returns r)"
  unfolding click_element_def
  by (auto simp: Let_def navigations_append emit_def split: prod.splits res.splits if_splits)

lemma check_element_navigations:
  "check_element env url visited sel el st c = (r, st', c') \<Longrightarrow>
   navigations (events c') = navigations (events c) @ result_list (Returns r)"
  unfolding check_element_def
  by (auto simp: Let_def navigations_emit split: prod.splits res.splits if_splits option.splits
      dest!: click_element_navigations)

lemma try_one_navigations:
  "try_one env url already visited sel st c = (r, st', c') \<Longrightarrow>
   navigations (events c') = navigations (events c) @ result_list (Returns r)"
  unfolding try_one_def
  by (auto simp: navigations_emit split: prod.splits res.splits if_splits option.splits
      dest!: check_element_navigations)

lemma try_sorted_navigations:
  "try_sorted env url already visited ds st c = (r, st', c') \<Longrightarrow>
   navigations (events c') = navigations (events c) @ result_list r"
proof (induction ds arbitrary: st c)
  case Nil
  then show ?case by auto
next
  case (Cons d ds)
  show ?case
  proof (cases "map_of d ''selector''")
    case None
    with Cons.prems show ?thesis by auto
  next
    case (Some sel)
    obtain r1 st1 c1 where one: "try_one env url already visited sel st c = (r1, st1, c1)"
      by (cases "try_one env url already visited sel st c") auto
    then have n1: "navigations (events c1) = navigations (events c) @ result_list (Returns r1)"
      by (rule try_one_navigations)
    show ?thesis
    proof (cases r1)
      case None
      with Cons.prems Some one
      have "try_sorted env url already visited ds st1 c1 = (r, st', c')" by simp
      then have "navigations (events c') = navigations (events c1) @ result_list r"
        by (rule Cons.IH)
      with n1 None show ?thesis by simp
    next
      case (Some n)
      with Cons.prems \<open>map_of d ''selector'' = Some sel\<close> one
      have "r = Returns r1" and "c' = c1" by simp_all
      with n1 show ?thesis by simp
    qed
  qed
qed

lemma llm_for_navigations:
  "llm_for env html s c = (l, c') \<Longrightarrow> navigations (events c') = navigations (events c)"
  unfolding llm_for_def get_llm_selectors_def
  by (auto simp: Let_def navigations_emit split: if_splits option.splits prod.splits res.splits)

lemma try_ranked_navigations:
  "try_ranked env url already visited html ss st c = (r, st', c') \<Longrightarrow>
   navigations (events c') = navigations (events c) @ result_list r"
proof (induction ss arbitrary: st c)
  case Nil
  then show ?case by auto
next
  case (Cons s ss)
  obtain l c1 where llm: "llm_for env html s c = (l, c1)"
    by (cases "llm_for env html s c") auto
  then have n1: "navigations (events c1) = navigations (events c)" by (rule llm_for_navigations)
  obtain r2 st2 c2 where
    srt: "try_sorted env url already visited (rank_selectors (synthesize l s)) st c1 = (r2, st2, c2)"
    by (cases "try_sorted env url already visited (rank_selectors (synthesize l s)) st c1") auto
  then have n2: "navigations (events c2) = navigations (events c1) @ result_list r2"
    by (rule try_sorted_navigations)
  show ?case
  proof (cases "r2 = Returns None")
    case True
    with Cons.prems llm srt
    have "try_ranked env url already visited html ss st2 c2 = (r, st', c')" by simp
    then have "navigations (events c') = navigations (events c2) @ result_list r" by (rule Cons.IH)
    with n1 n2 True show ?thesis by simp
  next
    case False
    with Cons.prems llm srt have "r = r2" and "c' = c2"
      by (cases r2; auto split: option.splits)+
    with n1 n2 show ?thesis by simp
  qed
qed

text \<open>A page that has been loaded leaves a \<open>goto\<close> or the settle delay as the last event.\<close>

lemma load_page_navigations:
  "load_page env url c = (ok, c') \<Longrightarrow>
   navigations (events c') = navigations (events c) \<and>
   events c' \<noteq> [] \<and> (\<forall>s a b. last (events c') \<noteq> UrlAfterClick s a b)"
  unfolding load_page_def
  by (auto simp: Let_def navigations_append emit_def split: prod.splits res.splits)

lemma close_navigations:
  "close_and_return_none env st c = (r, st', c') \<Longrightarrow>
   navigations (events c') = navigations (events c) @ result_list r"
  unfolding close_and_return_none_def
  by (auto simp: navigations_emit split: prod.splits res.splits)

lemma confirmed_step_other:
  "\<forall>s a b. prev \<noteq> Some (UrlAfterClick s a b) \<Longrightarrow> confirmed_step prev e = []"
  by (auto simp: confirmed_step_def split: event.splits option.splits)

lemma resolve_on_page_navigations:
  assumes "resolve_on_page env url sels already visited st c = (r, st', c')"
    and "events c \<noteq> []" and "\<forall>s a b. last (events c) \<noteq> UrlAfterClick s a b"
  shows "navigations (events c') = navigations (events c) @ result_list r"
proof -
  obtain rc w where ct: "content env (world c) = (rc, w)" by (cases "content env (world c)") auto
  show ?thesis
  proof (cases rc)
    case Raises
    with assms(1) ct have "r = Raises" and "c' = emit (PageContent None) (c\<lparr>world := w\<rparr>)"
      by (simp_all add: resolve_on_page_def)
    then show ?thesis by (simp add: navigations_emit)
  next
    case (Returns html)
    let ?c1 = "emit (PageContent (Some html)) (c\<lparr>world := w\<rparr>)"
    have "confirmed_step (Some (last (events c))) (PageContent (Some html)) = []"
      using assms(3) by (intro confirmed_step_other) simp
    then have n1: "navigations (events ?c1) = navigations (events c)"
      using assms(2) by (simp add: navigations_emit)
    obtain r2 st2 c2 where
      rk: "try_ranked env url already visited html (rank_selectors sels) st ?c1 = (r2, st2, c2)"
      by (cases "try_ranked env url already visited html (rank_selectors sels) st ?c1") auto
    then have n2: "navigations (events c2) = navigations (events c) @ result_list r2"
      using n1 by (auto dest: try_ranked_navigations)
    show ?thesis
    proof (cases "r2 = Returns None")
      case True
      with assms(1) ct Returns rk have "close_and_return_none env st2 c2 = (r, st', c')"
        by (simp add: resolve_on_page_def)
      then have "navigations (events c') = navigations (events c2) @ result_list r"
        by (rule close_navigations)
      with n2 True show ?thesis by simp
    next
      case False
      with assms(1) ct Returns rk have "c' = c2" and "r = r2"
        by (cases r2; auto simp: resolve_on_page_def split: option.splits)+
      with n2 show ?thesis by simp
    qed
  qed
qed

lemma session_navigations:
  assumes "session env url sels already visited st c = (r, st', c')"
  shows "navigations (events c') = navigations (events c) @ result_list r"
proof -
  obtain rl w where la: "launch env (world c) = (rl, w)" by (cases "launch env (world c)") auto
  show ?thesis
  proof (cases rl)
    case Raises
    with assms la show ?thesis by (auto simp: session_def navigations_emit)
  next
    case (Returns u)
    let ?c1 = "emit (BrowserLaunch True) (c\<lparr>world := w\<rparr>)"
    obtain rn w2 where nc: "new_context env w = (rn, w2)" by (cases "new_context env w") auto
    show ?thesis
    proof (cases rn)
      case Raises
      with assms la Returns nc show ?thesis by (auto simp: session_def Let_def navigations_emit)
    next
      case (Returns u2)
      note nc_ok = this
      let ?c2 = "emit NewContext (?c1\<lparr>world := w2\<rparr>)"
      obtain rp w3 where np: "new_page env w2 = (rp, w3)" by (cases "new_page env w2") auto
      show ?thesis
      proof (cases rp)
        case Raises
        with assms la \<open>rl = Returns u\<close> nc nc_ok np show ?thesis
          by (auto simp: session_def Let_def navigations_emit)
      next
        case (Returns u3)
        let ?c3 = "emit NewPage (?c2\<lparr>world := w3\<rparr>)"
        have n3: "navigations (events ?c3) = navigations (events c)"
          by (simp add: navigations_emit)
        obtain ok c4 where lp: "load_page env url ?c3 = (ok, c4)"
          by (cases "load_page env url ?c3") auto
        from load_page_navigations [OF lp] n3
        have n4: "navigations (events c4) = navigations (events c)"
          and ne: "events c4 \<noteq> []" and la4: "\<forall>s a b. last (events c4) \<noteq> UrlAfterClick s a b"
          by simp_all
        have "navigations (events c') = navigations (events c4) @ result_list r"
        proof (cases ok)
          case True
          with assms la \<open>rl = Returns u\<close> nc nc_ok np Returns lp
          have "resolve_on_page env url sels already visited st c4 = (r, st', c')"
            by (simp add: session_def Let_def)
          then show ?thesis using ne la4 by (rule resolve_on_page_navigations)
        next
          case False
          with assms la \<open>rl = Returns u\<close> nc nc_ok np Returns lp
          have "close_and_return_none env st c4 = (r, st', c')"
            by (simp add: session_def Let_def)
          then show ?thesis by (rule close_navigations)
        qed
        with n4 show ?thesis by simp
      qed
    qed
  qed
qed

lemma try_selectors_navigations:
  "navigations (log_of (try_selectors env url sels st cache w)) =
     result_list (outcome (try_selectors env url sels st cache w))"
proof -
  let ?c0 = "\<lparr>world = w, selector_cache = cache, events = []\<rparr>"
  let ?R = "try_selectors env url sels st cache w"
  let ?sels = "filter (not_clicked (get_list (already_clicked st))) sels"
  show ?thesis
  proof (cases "url = [] \<or> sels = [] \<or> ?sels = []")
    case True
    then have "?R = (Returns None, st, ?c0)" by (auto simp: try_selectors_def Let_def)
    then show ?thesis by (simp add: log_of_def outcome_def navigations_def)
  next
    case False
    obtain rs w1 where ps: "pw_start env w = (rs, w1)" by (cases "pw_start env w") auto
    show ?thesis
    proof (cases rs)
      case Raises
      with False ps have "?R = (Raises, st, emit (PlaywrightStart False) (?c0\<lparr>world := w1\<rparr>))"
        by (auto simp: try_selectors_def Let_def)
      then show ?thesis by (simp add: log_of_def outcome_def emit_def navigations_def)
    next
      case (Returns u)
      let ?c1 = "emit (PlaywrightStart True) (?c0\<lparr>world := w1\<rparr>)"
      have n1: "navigations (events ?c1) = []"
        by (simp add: emit_def navigations_def)
      obtain r st' c' where
        se: "session env url ?sels (get_list (already_clicked st)) (get_list (visited_urls st)) st ?c1
             = (r, st', c')"
        by (cases "session env url ?sels (get_list (already_clicked st))
                     (get_list (visited_urls st)) st ?c1") auto
      from False ps Returns se
      have R: "?R = (r, st', emit PlaywrightStop (c'\<lparr>world := pw_stop env (world c')\<rparr>))"
        by (auto simp: try_selectors_def Let_def)
      from session_navigations [OF se] n1 have "navigations (events c') = result_list r" by simp
      with R show ?thesis by (simp add: log_of_def outcome_def navigations_emit)
    qed
  qed
qed

subsection \<open>The probes follow the plan\<close>

lemma probes_emit [simp]: "probes (events (emit e c)) = probes (events c) @ probe_of e"
  by (simp add: probes_def emit_def)

lemma probes_world [simp]: "probes (events (c\<lparr>world := w\<rparr>)) = probes (events c)"
  by simp

lemma probes_cache [simp]: "probes (events (c\<lparr>selector_cache := k\<rparr>)) = probes (events c)"
  by simp

lemma click_element_probes:
  "click_element env sel el href st c = (r, st', c') \<Longrightarrow>
   probes (events c') = probes (events c) \<and> (\<forall>n. r = Some n \<longrightarrow> nav_selector n = sel)"
  unfolding click_element_def
  by (auto simp: Let_def split: prod.splits res.splits if_splits)

lemma check_element_probes:
  "check_element env url visited sel el st c = (r, st', c') \<Longrightarrow>
   probes (events c') = probes (events c) \<and> (\<forall>n. r = Some n \<longrightarrow> nav_selector n = sel)"
  unfolding check_element_def
  by (auto simp: Let_def split: prod.splits res.splits if_splits option.splits
      dest!: click_element_probes)

lemma try_one_probes:
  "try_one env url already visited sel st c = (r, st', c') \<Longrightarrow>
   probes (events c') = probes (events c) @ (if sel \<in> set already then [] else [sel]) \<and>
   (\<forall>n. r = Some n \<longrightarrow> nav_selector n = sel \<and> sel \<notin> set already)"
  unfolding try_one_def
  by (auto split: prod.splits res.splits if_splits option.splits dest!: check_element_probes)

lemma planned_selectors_Cons:
  "planned_selectors already (d # ds) =
     (case map_of d ''selector'' of
        Some sel \<Rightarrow> if sel \<in> set already then [] else [sel]
      | None \<Rightarrow> []) @ planned_selectors already ds"
  by (simp add: planned_selectors_def)

lemma try_sorted_probes:
  "try_sorted env url already visited ds st c = (r, st', c') \<Longrightarrow>
   \<exists>new. probes (events c') = probes (events c) @ new \<and>
         follows_plan r new (planned_selectors already ds)"
proof (induction ds arbitrary: st c)
  case Nil
  then show ?case by (auto simp: follows_plan_def planned_selectors_def)
next
  case (Cons d ds)
  show ?case
  proof (cases "map_of d ''selector''")
    case None
    with Cons.prems show ?thesis by (auto simp: follows_plan_def)
  next
    case (Some sel)
    let ?own = "if sel \<in> set already then [] else [sel]"
    have pl: "planned_selectors already (d # ds) = ?own @ planned_selectors already ds"
      using Some by (simp add: planned_selectors_Cons)
    obtain r1 st1 c1 where one: "try_one env url already visited sel st c = (r1, st1, c1)"
      by (cases "try_one env url already visited sel st c") auto
    from try_one_probes [OF one]
    have p1: "probes (events c1) = probes (events c) @ ?own"
      and s1: "\<forall>n. r1 = Some n \<longrightarrow> nav_selector n = sel \<and> sel \<notin> set already"
      by blast+
    show ?thesis
    proof (cases r1)
      case None
      with Cons.prems Some one
      have "try_sorted env url already visited ds st1 c1 = (r, st', c')" by simp
      from Cons.IH [OF this] obtain new where
        n: "probes (events c') = probes (events c1) @ new"
        and f: "follows_plan r new (planned_selectors already ds)"
        by blast
      from f have "follows_plan r (?own @ new) (planned_selectors already (d # ds))"
        unfolding pl follows_plan_def by auto
      with n p1 show ?thesis by auto
    next
      case (Some n)
      with Cons.prems \<open>map_of d ''selector'' = Some sel\<close> one
      have "r = Returns (Some n)" and "c' = c1" by simp_all
      moreover from s1 Some have "nav_selector n = sel" and "sel \<notin> set already" by simp_all
      ultimately show ?thesis using p1 pl by (auto simp: follows_plan_def)
    qed
  qed
qed

lemma llm_for_probes:
  "llm_for env html s c = (l, c') \<Longrightarrow> probes (events c') = probes (events c)"
  unfolding llm_for_def get_llm_selectors_def
  by (auto simp: Let_def split: if_splits option.splits prod.splits res.splits)

lemma plan_Cons:
  "plan already ((l, s) # answered) =
     planned_selectors already (rank_selectors (synthesize l s)) @ plan already answered"
  by (simp add: plan_def)

lemma try_ranked_probes:
  "try_ranked env url already visited html ss st c = (r, st', c') \<Longrightarrow>
   \<exists>answers new. length answers = length ss \<and>
         probes (events c') = probes (events c) @ new \<and>
         follows_plan r new (plan already (zip answers ss))"
proof (induction ss arbitrary: st c)
  case Nil
  then show ?case by (auto simp: follows_plan_def plan_def)
next
  case (Cons s ss)
  obtain l c1 where llm: "llm_for env html s c = (l, c1)"
    by (cases "llm_for env html s c") auto
  then have p1: "probes (events c1) = probes (events c)" by (rule llm_for_probes)
  let ?own = "planned_selectors already (rank_selectors (synthesize l s))"
  obtain r2 st2 c2 where
    srt: "try_sorted env url already visited (rank_selectors (synthesize l s)) st c1 = (r2, st2, c2)"
    by (cases "try_sorted env url already visited (rank_selectors (synthesize l s)) st c1") auto
  from try_sorted_probes [OF srt] obtain new2 where
    n2: "probes (events c2) = probes (events c1) @ new2"
    and f2: "follows_plan r2 new2 ?own"
    by blast
  show ?case
  proof (cases "r2 = Returns None")
    case True
    with f2 have own: "new2 = ?own" by (auto simp: follows_plan_def)
    from True Cons.prems llm srt
    have "try_ranked env url already visited html ss st2 c2 = (r, st', c')" by simp
    from Cons.IH [OF this] obtain answers new where
      la: "length answers = length ss"
      and n: "probes (events c') = probes (events c2) @ new"
      and f: "follows_plan r new (plan already (zip answers ss))"
      by blast
    from f have "follows_plan r (?own @ new) (plan already (zip (l # answers) (s # ss)))"
      unfolding follows_plan_def by (auto simp: plan_Cons)
    moreover have "probes (events c') = probes (events c) @ ?own @ new"
      using n n2 p1 own by simp
    moreover have "length (l # answers) = length (s # ss)" using la by simp
    ultimately show ?thesis by blast
  next
    case False
    with Cons.prems llm srt have rr: "r = r2" and cc: "c' = c2"
      by (cases r2; auto split: option.splits)+
    from f2 False have "follows_plan r2 new2 (plan already (zip (l # replicate (length ss) []) (s # ss)))"
      unfolding follows_plan_def by (auto simp: plan_Cons)
    moreover have "length (l # replicate (length ss) ([]::pydict list)) = length (s # ss)" by simp
    ultimately show ?thesis using rr cc n2 p1 by (metis append_assoc)
  qed
qed

text \<open>Whether the log shows a call of \<open>page.content()\<close>: the page was loaded.\<close>

lemma load_page_probes:
  "load_page env url c = (ok, c') \<Longrightarrow>
   probes (events c') = probes (events c) \<and>
   ((\<forall>h. PageContent h \<notin> set (events c)) \<longrightarrow> (\<forall>h. PageContent h \<notin> set (events c')))"
  unfolding load_page_def
  by (auto simp: Let_def emit_def probes_def split: prod.splits res.splits)

lemma close_probes:
  "close_and_return_none env st c = (r, st', c') \<Longrightarrow>
   probes (events c') = probes (events c) \<and>
   ((\<forall>h. PageContent h \<notin> set (events c)) \<longrightarrow> (\<forall>h. PageContent h \<notin> set (events c')))"
  unfolding close_and_return_none_def
  by (auto simp: emit_def probes_def split: prod.splits res.splits)

lemma resolve_on_page_probes:
  assumes "resolve_on_page env url sels already visited st c = (r, st', c')"
  shows "\<exists>answers new. length answers = length (rank_selectors sels) \<and>
           probes (events c') = probes (events c) @ new \<and>
           follows_plan r new (plan already (zip answers (rank_selectors sels)))"
proof -
  obtain rc w where ct: "content env (world c) = (rc, w)" by (cases "content env (world c)") auto
  show ?thesis
  proof (cases rc)
    case Raises
    with assms ct have "r = Raises" and "c' = emit (PageContent None) (c\<lparr>world := w\<rparr>)"
      by (simp_all add: resolve_on_page_def)
    moreover have "length (replicate (length (rank_selectors sels)) ([]::pydict list)) =
        length (rank_selectors sels)" by simp
    ultimately show ?thesis
      by (intro exI [of _ "replicate (length (rank_selectors sels)) []"] exI [of _ "[]"])
         (simp add: follows_plan_def)
  next
    case (Returns html)
    let ?c1 = "emit (PageContent (Some html)) (c\<lparr>world := w\<rparr>)"
    obtain r2 st2 c2 where
      rk: "try_ranked env url already visited html (rank_selectors sels) st ?c1 = (r2, st2, c2)"
      by (cases "try_ranked env url already visited html (rank_selectors sels) st ?c1") auto
    from try_ranked_probes [OF rk] obtain answers new where
      la: "length answers = length (rank_selectors sels)"
      and n: "probes (events c2) = probes (events c) @ new"
      and f: "follows_plan r2 new (plan already (zip answers (rank_selectors sels)))"
      by auto
    show ?thesis
    proof (cases "r2 = Returns None")
      case True
      with assms ct Returns rk have cl: "close_and_return_none env st2 c2 = (r, st', c')"
        by (simp add: resolve_on_page_def)
      then have "probes (events c') = probes (events c2)" by (simp add: close_probes)
      moreover from cl have "r = Returns None \<or> r = Raises"
        by (auto simp: close_and_return_none_def split: prod.splits res.splits)
      with f True have "follows_plan r new (plan already (zip answers (rank_selectors sels)))"
        by (auto simp: follows_plan_def)
      ultimately show ?thesis using la n by auto
    next
      case False
      with assms ct Returns rk have "c' = c2" and "r = r2"
        by (cases r2; auto simp: resolve_on_page_def split: option.splits)+
      with la n f show ?thesis by auto
    qed
  qed
qed

lemma follows_plan_loaded:
  "follows_plan r new planned \<Longrightarrow> follows_plan_if_loaded r evs new planned"
  by (auto simp: follows_plan_def follows_plan_if_loaded_def)

lemma session_probes:
  assumes "session env url sels already visited st c = (r, st', c')"
    and "\<forall>h. PageContent h \<notin> set (events c)"
  shows "\<exists>answers new. length answers = length (rank_selectors sels) \<and>
           probes (events c') = probes (events c) @ new \<and>
           follows_plan_if_loaded r (events c') new
             (plan already (zip answers (rank_selectors sels)))"
proof -
  let ?none = "replicate (length (rank_selectors sels)) ([]::pydict list)"
  have unloaded: "\<exists>answers new. length answers = length (rank_selectors sels) \<and>
           probes (events c') = probes (events c) @ new \<and>
           follows_plan_if_loaded r (events c') new
             (plan already (zip answers (rank_selectors sels)))"
    if "probes (events c') = probes (events c)" and "\<forall>h. PageContent h \<notin> set (events c')"
      and "r = Raises \<or> r = Returns None"
    using that
    by (intro exI [of _ ?none] exI [of _ "[]"]) (auto simp: follows_plan_if_loaded_def)
  obtain rl w where la: "launch env (world c) = (rl, w)" by (cases "launch env (world c)") auto
  show ?thesis
  proof (cases rl)
    case Raises
    with assms la have "r = Raises" and "c' = emit (BrowserLaunch False) (c\<lparr>world := w\<rparr>)"
      by (auto simp: session_def)
    with assms(2) show ?thesis by (intro unloaded) (auto simp: emit_def probes_def)
  next
    case (Returns u)
    let ?c1 = "emit (BrowserLaunch True) (c\<lparr>world := w\<rparr>)"
    obtain rn w2 where nc: "new_context env w = (rn, w2)" by (cases "new_context env w") auto
    show ?thesis
    proof (cases rn)
      case Raises
      with assms la Returns nc have "r = Raises" and "c' = emit NewContext (?c1\<lparr>world := w2\<rparr>)"
        by (auto simp: session_def Let_def)
      with assms(2) show ?thesis by (intro unloaded) (auto simp: emit_def probes_def)
    next
      case (Returns u2)
      note nc_ok = this
      let ?c2 = "emit NewContext (?c1\<lparr>world := w2\<rparr>)"
      obtain rp w3 where np: "new_page env w2 = (rp, w3)" by (cases "new_page env w2") auto
      show ?thesis
      proof (cases rp)
        case Raises
        with assms la \<open>rl = Returns u\<close> nc nc_ok np
        have "r = Raises" and "c' = emit NewPage (?c2\<lparr>world := w3\<rparr>)"
          by (auto simp: session_def Let_def)
        with assms(2) show ?thesis by (intro unloaded) (auto simp: emit_def probes_def)
      next
        case (Returns u3)
        let ?c3 = "emit NewPage (?c2\<lparr>world := w3\<rparr>)"
        have p3: "probes (events ?c3) = probes (events c)" by simp
        have u3: "\<forall>h. PageContent h \<notin> set (events ?c3)" using assms(2) by (auto simp: emit_def)
        obtain ok c4 where lp: "load_page env url ?c3 = (ok, c4)"
          by (cases "load_page env url ?c3") auto
        from load_page_probes [OF lp] p3 u3
        have p4: "probes (events c4) = probes (events c)"
          and u4: "\<forall>h. PageContent h \<notin> set (events c4)"
          by simp_all
        show ?thesis
        proof (cases ok)
          case True
          with assms la \<open>rl = Returns u\<close> nc nc_ok np Returns lp
          have "resolve_on_page env url sels already visited st c4 = (r, st', c')"
            by (simp add: session_def Let_def)
          from resolve_on_page_probes [OF this] p4 show ?thesis
            by (auto intro: follows_plan_loaded)
        next
          case False
          with assms la \<open>rl = Returns u\<close> nc nc_ok np Returns lp
          have cl: "close_and_return_none env st c4 = (r, st', c')"
            by (simp add: session_def Let_def)
          from close_probes [OF cl] p4 u4
          have "probes (events c') = probes (events c)" and "\<forall>h. PageContent h \<notin> set (events c')"
            by simp_all
          moreover from cl have "r = Raises \<or> r = Returns None"
            by (auto simp: close_and_return_none_def split: prod.splits res.splits)
          ultimately show ?thesis by (rule unloaded)
        qed
      qed
    qed
  qed
qed

lemma try_selectors_probes:
  "\<exists>answers.
     length answers =
       length (rank_selectors (filter (not_clicked (get_list (already_clicked st))) sels)) \<and>
     follows_plan_if_loaded (outcome (try_selectors env url sels st cache w))
       (log_of (try_selectors env url sels st cache w))
       (probes (log_of (try_selectors env url sels st cache w)))
       (plan (get_list (already_clicked st))
          (zip answers
             (rank_selectors (filter (not_clicked (get_list (already_clicked st))) sels))))"
proof -
  let ?c0 = "\<lparr>world = w, selector_cache = cache, events = []\<rparr>"
  let ?R = "try_selectors env url sels st cache w"
  let ?a = "get_list (already_clicked st)"
  let ?sels = "filter (not_clicked ?a) sels"
  let ?none = "replicate (length (rank_selectors ?sels)) ([]::pydict list)"
  have unloaded: ?thesis
    if "probes (log_of ?R) = []" and "\<forall>h. PageContent h \<notin> set (log_of ?R)"
      and "outcome ?R = Raises \<or> outcome ?R = Returns None"
    using that
    by (intro exI [of _ ?none]) (auto simp: follows_plan_if_loaded_def)
  show ?thesis
  proof (cases "url = [] \<or> sels = [] \<or> ?sels = []")
    case True
    then have "?R = (Returns None, st, ?c0)" by (auto simp: try_selectors_def Let_def)
    then show ?thesis by (intro unloaded) (simp_all add: log_of_def outcome_def probes_def)
  next
    case False
    obtain rs w1 where ps: "pw_start env w = (rs, w1)" by (cases "pw_start env w") auto
    show ?thesis
    proof (cases rs)
      case Raises
      with False ps have "?R = (Raises, st, emit (PlaywrightStart False) (?c0\<lparr>world := w1\<rparr>))"
        by (auto simp: try_selectors_def Let_def)
      then show ?thesis
        by (intro unloaded) (simp_all add: log_of_def outcome_def probes_def emit_def)
    next
      case (Returns u)
      let ?c1 = "emit (PlaywrightStart True) (?c0\<lparr>world := w1\<rparr>)"
      have p1: "probes (events ?c1) = []" by (simp add: probes_def emit_def)
      have u1: "\<forall>h. PageContent h \<notin> set (events ?c1)" by (simp add: emit_def)
      obtain r st' c' where
        se: "session env url ?sels ?a (get_list (visited_urls st)) st ?c1 = (r, st', c')"
        by (cases "session env url ?sels ?a (get_list (visited_urls st)) st ?c1") auto
      from False ps Returns se
      have R: "?R = (r, st', emit PlaywrightStop (c'\<lparr>world := pw_stop env (world c')\<rparr>))"
        by (auto simp: try_selectors_def Let_def)
      from session_probes [OF se u1] p1 obtain answers where
        la: "length answers = length (rank_selectors ?sels)"
        and f: "follows_plan_if_loaded r (events c') (probes (events c'))
                  (plan ?a (zip answers (rank_selectors ?sels)))"
        by auto
      from f have "follows_plan_if_loaded r (events c' @ [PlaywrightStop]) (probes (events c'))
                  (plan ?a (zip answers (rank_selectors ?sels)))"
        by (auto simp: follows_plan_if_loaded_def)
      with R la show ?thesis
        by (intro exI [of _ answers]) (simp add: log_of_def outcome_def emit_def probes_def)
    qed
  qed
qed


section \<open>The small site, step by step\<close>

lemma site_simps [simp]:
  "pw_start (site b) = (\<lambda>w. (Returns (), w))"
  "pw_stop (site b) = (\<lambda>w. w)"
  "launch (site b) = (\<lambda>w. (Returns (), w))"
  "new_context (site b) = (\<lambda>w. (Returns (), w))"
  "new_page (site b) = (\<lambda>w. (Returns (), w))"
  "set_viewport_size (site b) = (\<lambda>w. (Returns (), w))"
  "request_fullscreen (site b) = (\<lambda>w. (Returns (), w))"
  "goto (site b) = (\<lambda>u wu w. (Returns (), w))"
  "sleep (site b) = (\<lambda>w. w)"
  "content (site b) = (\<lambda>w. (if b \<and> 0 < w then Raises else Returns ''<html></html>'', w))"
  "page_url (site b) = (\<lambda>w. if w = 0 then ''http://site/'' else ''http://site/apply'')"
  "wait_for_selector (site b) = (\<lambda>sel w. (Returns (Some sel), w))"
  "is_visible (site b) = (\<lambda>e w. (Returns True, w))"
  "is_enabled (site b) = (\<lambda>e w. (Returns True, w))"
  "bounding_box (site b) = (\<lambda>e w. (Returns True, w))"
  "get_attribute_href (site b) = (\<lambda>e w. (Returns (Some ''/apply''), w))"
  "click (site b) = (\<lambda>e w. (Returns (), Suc w))"
  "wait_for_load_state (site b) = (\<lambda>w. w)"
  "browser_close (site b) = (\<lambda>w. (Returns (), w))"
  "raw_completion (site b) = (\<lambda>t w. (Raises, w))"
  "urljoin (site b) = (\<lambda>base h. ''http://site'' @ h)"
  by (simp_all add: site_def)

lemma click_site:
  "click_element (site b) sel el href st \<lparr>world = 0, selector_cache = k, events = evs\<rparr> =
     (if b then None
      else Some \<lparr>nav_url = ''http://site/apply'', nav_html = ''<html></html>'', nav_selector = sel\<rparr>,
      if b then st else record_navigation sel ''http://site/apply'' st,
      \<lparr>world = 1, selector_cache = k,
       events = evs @ [Click sel href, WaitForLoadState,
                       UrlAfterClick sel ''http://site/'' ''http://site/apply'',
                       PageContent (if b then None else Some ''<html></html>'')]\<rparr>)"
  by (simp add: click_element_def emit_def Let_def)

lemma click_site_again:
  "click_element (site b) sel el href st \<lparr>world = Suc n, selector_cache = k, events = evs\<rparr> =
     (None, st,
      \<lparr>world = Suc (Suc n), selector_cache = k,
       events = evs @ [Click sel href, WaitForLoadState,
                       UrlAfterClick sel ''http://site/apply'' ''http://site/apply'']\<rparr>)"
  by (simp add: click_element_def emit_def Let_def)

lemma check_site:
  "''http://site/apply'' \<notin> set visited \<Longrightarrow>
   check_element (site b) url visited sel el st \<lparr>world = w, selector_cache = k, events = evs\<rparr> =
     click_element (site b) sel el (Some ''/apply'') st
       \<lparr>world = w, selector_cache = k,
        events = evs @ [IsVisible sel, IsEnabled sel, BoundingBox sel, GetAttributeHref sel]\<rparr>"
  by (simp add: check_element_def emit_def Let_def)

lemma check_site_visited:
  "''http://site/apply'' \<in> set visited \<Longrightarrow>
   check_element (site b) url visited sel el st \<lparr>world = w, selector_cache = k, events = evs\<rparr> =
     (None, st, \<lparr>world = w, selector_cache = k,
        events = evs @ [IsVisible sel, IsEnabled sel, BoundingBox sel, GetAttributeHref sel]\<rparr>)"
  by (simp add: check_element_def emit_def Let_def)

lemma try_one_site:
  "sel \<notin> set already \<Longrightarrow>
   try_one (site b) url already visited sel st \<lparr>world = w, selector_cache = k, events = evs\<rparr> =
     check_element (site b) url visited sel sel st
       \<lparr>world = w, selector_cache = k, events = evs @ [WaitForSelector sel]\<rparr>"
  by (simp add: try_one_def emit_def)

lemma rank_single: "rank_selectors [x] = [x]"
  by (simp add: rank_selectors_def)

lemma synthesize_selector_only:
  "sel \<noteq> [] \<Longrightarrow> synthesize l [(''selector'', sel)] = [[(''selector'', sel), (''text'', [])]]"
  by (simp add: synthesize_def named_attrs_def strategy_def dict_get_def Let_def)

lemma load_site:
  "load_page (site b) url \<lparr>world = w, selector_cache = k, events = evs\<rparr> =
     (True, \<lparr>world = w, selector_cache = k,
             events = evs @ [SetViewportSize, RequestFullscreen, Goto url NetworkIdle]\<rparr>)"
  by (simp add: load_page_def emit_def Let_def)

lemmas site_run =
  try_selectors_def session_def resolve_on_page_def close_and_return_none_def llm_for_def
  dict_get_def emit_def get_list_def not_clicked_def go_button_def two_buttons_def
  load_site rank_single synthesize_selector_only try_one_site check_site check_site_visited
  click_site click_site_again

text \<open>The markup cannot be read after the click: the call ends without a result.\<close>

lemma site_run_content_fails:
  "try_selectors (site True) ''http://site/'' go_button fresh_state Map.empty 0 =
     (Returns None, fresh_state,
      \<lparr>world = 1, selector_cache = Map.empty,
       events = [PlaywrightStart True, BrowserLaunch True, NewContext, NewPage, SetViewportSize,
                 RequestFullscreen, Goto ''http://site/'' NetworkIdle,
                 PageContent (Some ''<html></html>''),
                 WaitForSelector ''#go'', IsVisible ''#go'', IsEnabled ''#go'', BoundingBox ''#go'',
                 GetAttributeHref ''#go'', Click ''#go'' (Some ''/apply''), WaitForLoadState,
                 UrlAfterClick ''#go'' ''http://site/'' ''http://site/apply'',
                 PageContent None,
                 BrowserClose True, PlaywrightStop]\<rparr>)"
  by (simp add: site_run fresh_state_def)

text \<open>The markup can be read: the call returns the navigation.\<close>

lemma site_run_navigates:
  "try_selectors (site False) ''http://site/'' go_button fresh_state Map.empty 0 =
     (Returns (Some \<lparr>nav_url = ''http://site/apply'', nav_html = ''<html></html>'',
                      nav_selector = ''#go''\<rparr>),
      record_navigation ''#go'' ''http://site/apply'' fresh_state,
      \<lparr>world = 1, selector_cache = Map.empty,
       events = [PlaywrightStart True, BrowserLaunch True, NewContext, NewPage, SetViewportSize,
                 RequestFullscreen, Goto ''http://site/'' NetworkIdle,
                 PageContent (Some ''<html></html>''),
                 WaitForSelector ''#go'', IsVisible ''#go'', IsEnabled ''#go'', BoundingBox ''#go'',
                 GetAttributeHref ''#go'', Click ''#go'' (Some ''/apply''), WaitForLoadState,
                 UrlAfterClick ''#go'' ''http://site/'' ''http://site/apply'',
                 PageContent (Some ''<html></html>''),
                 PlaywrightStop]\<rparr>)"
  by (simp add: site_run fresh_state_def)


text \<open>\<open>#go\<close> was clicked before: the other button is tried.\<close>

lemma site_run_clicked:
  "try_selectors (site False) ''http://site/'' two_buttons clicked_state Map.empty 0 =
     (Returns (Some \<lparr>nav_url = ''http://site/apply'', nav_html = ''<html></html>'',
                      nav_selector = ''#other''\<rparr>),
      record_navigation ''#other'' ''http://site/apply'' clicked_state,
      \<lparr>world = 1, selector_cache = Map.empty,
       events = [PlaywrightStart True, BrowserLaunch True, NewContext, NewPage, SetViewportSize,
                 RequestFullscreen, Goto ''http://site/'' NetworkIdle,
                 PageContent (Some ''<html></html>''),
                 WaitForSelector ''#other'', IsVisible ''#other'', IsEnabled ''#other'',
                 BoundingBox ''#other'', GetAttributeHref ''#other'',
                 Click ''#other'' (Some ''/apply''), WaitForLoadState,
                 UrlAfterClick ''#other'' ''http://site/'' ''http://site/apply'',
                 PageContent (Some ''<html></html>''),
                 PlaywrightStop]\<rparr>)"
  by (simp add: site_run clicked_state_def)

subsection \<open>Other links, and a page that the clicks do not leave\<close>

lemma site_with_href_simps [simp]:
  "pw_start (site_with_href h) = (\<lambda>w. (Returns (), w))"
  "pw_stop (site_with_href h) = (\<lambda>w. w)"
  "launch (site_with_href h) = (\<lambda>w. (Returns (), w))"
  "new_context (site_with_href h) = (\<lambda>w. (Returns (), w))"
  "new_page (site_with_href h) = (\<lambda>w. (Returns (), w))"
  "set_viewport_size (site_with_href h) = (\<lambda>w. (Returns (), w))"
  "request_fullscreen (site_with_href h) = (\<lambda>w. (Returns (), w))"
  "goto (site_with_href h) = (\<lambda>u wu w. (Returns (), w))"
  "sleep (site_with_href h) = (\<lambda>w. w)"
  "content (site_with_href h) = (\<lambda>w. (Returns ''<html></html>'', w))"
  "page_url (site_with_href h) = (\<lambda>w. if w = 0 then ''http://site/'' else ''http://site/apply'')"
  "wait_for_selector (site_with_href h) = (\<lambda>sel w. (Returns (Some sel), w))"
  "is_visible (site_with_href h) = (\<lambda>e w. (Returns True, w))"
  "is_enabled (site_with_href h) = (\<lambda>e w. (Returns True, w))"
  "bounding_box (site_with_href h) = (\<lambda>e w. (Returns True, w))"
  "get_attribute_href (site_with_href h) = (\<lambda>e w. (Returns (Some h), w))"
  "click (site_with_href h) = (\<lambda>e w. (Returns (), Suc w))"
  "wait_for_load_state (site_with_href h) = (\<lambda>w. w)"
  "browser_close (site_with_href h) = (\<lambda>w. (Returns (), w))"
  "raw_completion (site_with_href h) = (\<lambda>t w. (Raises, w))"
  "urljoin (site_with_href h) = (\<lambda>base ref. if ref = [] then base else base @ ref)"
  by (simp_all add: site_with_href_def)








text \<open>Both buttons of a page that the clicks do not leave: the call tries the two in turn.\<close>

lemma rank_two_buttons: "rank_selectors two_buttons = two_buttons"
  by (simp add: rank_selectors_def two_buttons_def score_def string_evals)

lemma site_run_no_navigation:
  "try_selectors (site False) ''http://site/apply'' two_buttons fresh_state Map.empty (Suc 0) =
     (Returns None, fresh_state,
      \<lparr>world = Suc (Suc (Suc 0)), selector_cache = Map.empty,
       events = [PlaywrightStart True, BrowserLaunch True, NewContext, NewPage, SetViewportSize,
                 RequestFullscreen, Goto ''http://site/apply'' NetworkIdle,
                 PageContent (Some ''<html></html>''),
                 WaitForSelector ''#go'', IsVisible ''#go'', IsEnabled ''#go'', BoundingBox ''#go'',
                 GetAttributeHref ''#go'', Click ''#go'' (Some ''/apply''), WaitForLoadState,
                 UrlAfterClick ''#go'' ''http://site/apply'' ''http://site/apply'',
                 WaitForSelector ''#other'', IsVisible ''#other'', IsEnabled ''#other'',
                 BoundingBox ''#other'', GetAttributeHref ''#other'',
                 Click ''#other'' (Some ''/apply''), WaitForLoadState,
                 UrlAfterClick ''#other'' ''http://site/apply'' ''http://site/apply'',
                 BrowserClose True, PlaywrightStop]\<rparr>)"
proof -
  have f: "filter (not_clicked (get_list (already_clicked fresh_state))) two_buttons = two_buttons"
    by (simp add: not_clicked_def fresh_state_def get_list_def two_buttons_def)
  have r: "rank_selectors two_buttons = [[(''selector'', ''#go'')], [(''selector'', ''#other'')]]"
    by (simp add: rank_two_buttons) (simp add: two_buttons_def)
  have n: "two_buttons \<noteq> []" by (simp add: two_buttons_def)
  show ?thesis
    unfolding try_selectors_def Let_def f
    using n
    by (simp add: r session_def resolve_on_page_def close_and_return_none_def llm_for_def
        dict_get_def emit_def get_list_def load_site rank_single synthesize_selector_only
        try_one_site check_site click_site_again fresh_state_def)
qed


section \<open>The resolver: claims\<close>

text \<open>
  C3: with an empty URL, an empty candidate list, or candidates whose selector strings are
  all in \<open>already_clicked\<close>, the call returns \<open>None\<close> with the state, the world and the
  selector cache as they were and with an empty log: no page is loaded and no browser
  resource is opened.
\<close>

theorem nothing_to_resolve:
  assumes "url = [] \<or> sels = [] \<or>
           list_all (\<lambda>s. case map_of s ''selector'' of
                            None \<Rightarrow> False
                          | Some v \<Rightarrow> v \<in> set (get_list (already_clicked st))) sels"
  shows "try_selectors env url sels st cache w =
           (Returns None, st, \<lparr>world = w, selector_cache = cache, events = []\<rparr>)"
proof -
  have "filter (not_clicked (get_list (already_clicked st))) sels = []"
    if "list_all (\<lambda>s. case map_of s ''selector'' of None \<Rightarrow> False
                  | Some v \<Rightarrow> v \<in> set (get_list (already_clicked st))) sels"
    using that by (induction sels) (auto simp: not_clicked_def split: option.splits)
  with assms show ?thesis by (auto simp: try_selectors_def Let_def)
qed

text \<open>C3 at the small site, with the only candidate already clicked.\<close>

theorem nothing_to_resolve_witness:
  "list_all (\<lambda>s. case map_of s ''selector'' of
                   None \<Rightarrow> False
                 | Some v \<Rightarrow> v \<in> set (get_list (already_clicked clicked_state))) go_button \<and>
   try_selectors (site False) ''http://site/'' go_button clicked_state Map.empty 0 =
     (Returns None, clicked_state, \<lparr>world = 0, selector_cache = Map.empty, events = []\<rparr>)"
proof -
  have h: "list_all (\<lambda>s. case map_of s ''selector'' of
                   None \<Rightarrow> False
                 | Some v \<Rightarrow> v \<in> set (get_list (already_clicked clicked_state))) go_button"
    by (simp add: go_button_def clicked_state_def get_list_def)
  then have "''http://site/'' = [] \<or> go_button = [] \<or>
      list_all (\<lambda>s. case map_of s ''selector'' of
                   None \<Rightarrow> False
                 | Some v \<Rightarrow> v \<in> set (get_list (already_clicked clicked_state))) go_button"
    by blast
  from h nothing_to_resolve [OF this] show ?thesis by (rule conjI)
qed

text \<open>
  C4: a selector string that is in \<open>already_clicked\<close> at entry is neither probed nor clicked
  by the call, whatever the other candidates are. The filter of line 443 drops every
  candidate that carries it, and the check of line 561 skips it without touching the page.
\<close>

theorem already_clicked_never_probed:
  assumes "sel \<in> set (get_list (already_clicked st))"
  shows "WaitForSelector sel \<notin> set (log_of (try_selectors env url sels st cache w)) \<and>
         (\<forall>href. Click sel href \<notin> set (log_of (try_selectors env url sels st cache w))) \<and>
         (\<forall>d \<in> set (filter (not_clicked (get_list (already_clicked st))) sels).
            map_of d ''selector'' \<noteq> Some sel) \<and>
         try_one env url (get_list (already_clicked st)) visited sel st1 c = (None, st1, c)"
proof -
  let ?P = "permitted (urljoin env) url (get_list (already_clicked st)) (get_list (visited_urls st))"
  have all: "\<forall>e \<in> set (log_of (try_selectors env url sels st cache w)). ?P e"
    using try_selectors_permitted [of env url st sels cache w] by (simp add: list_all_iff)
  have "\<not> ?P (WaitForSelector sel)" and "\<not> ?P (Click sel href)" for href
    using assms by simp_all
  with all have "WaitForSelector sel \<notin> set (log_of (try_selectors env url sels st cache w))"
    and "\<forall>href. Click sel href \<notin> set (log_of (try_selectors env url sels st cache w))"
    by blast+
  moreover have "\<forall>d \<in> set (filter (not_clicked (get_list (already_clicked st))) sels).
            map_of d ''selector'' \<noteq> Some sel"
    using assms by (auto simp: not_clicked_def)
  moreover have "try_one env url (get_list (already_clicked st)) visited sel st1 c = (None, st1, c)"
    using assms by (simp add: try_one_def)
  ultimately show ?thesis by blast
qed

text \<open>
  C4 at the small site: \<open>#go\<close> was clicked before and is a candidate again, next to
  \<open>#other\<close>; the call probes \<open>#other\<close> and never \<open>#go\<close>.
\<close>

theorem already_clicked_never_probed_witness:
  "''#go'' \<in> set (get_list (already_clicked clicked_state)) \<and>
   WaitForSelector ''#other''
     \<in> set (log_of (try_selectors (site False) ''http://site/'' two_buttons clicked_state Map.empty 0)) \<and>
   WaitForSelector ''#go''
     \<notin> set (log_of (try_selectors (site False) ''http://site/'' two_buttons clicked_state Map.empty 0)) \<and>
   (\<forall>href. Click ''#go'' href
     \<notin> set (log_of (try_selectors (site False) ''http://site/'' two_buttons clicked_state Map.empty 0)))"
proof -
  have h: "''#go'' \<in> set (get_list (already_clicked clicked_state))"
    by (simp add: clicked_state_def get_list_def)
  have o: "WaitForSelector ''#other''
     \<in> set (log_of (try_selectors (site False) ''http://site/'' two_buttons clicked_state Map.empty 0))"
    by (simp add: site_run_clicked log_of_def)
  from h o already_clicked_never_probed [OF h, of "site False" "''http://site/''" two_buttons
      Map.empty 0]
  show ?thesis by blast
qed

text \<open>
  C5, as stated, fails: at the small site the click on \<open>#go\<close> changes the URL from
  \<open>http://site/\<close> to \<open>http://site/apply\<close>, reading the markup of the new page raises, the
  exception is swallowed by the \<open>except\<close> of line 629, and the call returns no outcome.
\<close>

theorem url_change_without_outcome:
  "UrlAfterClick ''#go'' ''http://site/'' ''http://site/apply''
     \<in> set (log_of (try_selectors (site True) ''http://site/'' go_button fresh_state Map.empty 0)) \<and>
   ''http://site/apply'' \<noteq> ''http://site/'' \<and>
   outcome (try_selectors (site True) ''http://site/'' go_button fresh_state Map.empty 0)
     = Returns None"
  by (simp add: site_run_content_fails log_of_def outcome_def)

text \<open>
  C5, amended, of the whole call and for every browser. The navigations its log confirms
  (a click after which \<open>page.url\<close> differs from before, directly followed by a
  \<open>page.content()\<close> that returned) are exactly its outcome: none when the call gives no
  navigation result, and otherwise that one result, with the selector clicked, the URL
  read after the click and the markup read. So a click that leaves the URL unchanged, or
  after which the markup cannot be read, is never the outcome, and a click that changed
  the URL and whose markup was read always is. The selectors are probed in ranked order:
  what the call has probed is a prefix of the plan (the candidates that the filter kept in
  the order of \<open>rank_selectors\<close>, the strategies of each candidate in the order of
  \<open>rank_selectors\<close>, without the selectors already clicked), it is all of the plan when the
  call ends without an outcome on a loaded page, and it ends with the selector of the
  outcome when there is one.
\<close>

theorem navigation_outcome:
  "navigations (log_of (try_selectors env url sels st cache w)) =
     (case outcome (try_selectors env url sels st cache w) of
        Returns (Some n) \<Rightarrow> [n]
      | _ \<Rightarrow> []) \<and>
   (\<exists>answers rest.
      length answers =
        length (rank_selectors (filter (not_clicked (get_list (already_clicked st))) sels)) \<and>
      plan (get_list (already_clicked st))
        (zip answers (rank_selectors (filter (not_clicked (get_list (already_clicked st))) sels))) =
        probes (log_of (try_selectors env url sels st cache w)) @ rest \<and>
      (outcome (try_selectors env url sels st cache w) = Returns None \<and>
       (\<exists>h. PageContent h \<in> set (log_of (try_selectors env url sels st cache w))) \<longrightarrow>
         rest = []) \<and>
      (\<forall>n. outcome (try_selectors env url sels st cache w) = Returns (Some n) \<longrightarrow>
         probes (log_of (try_selectors env url sels st cache w)) \<noteq> [] \<and>
         last (probes (log_of (try_selectors env url sels st cache w))) = nav_selector n))"
proof -
  have "navigations (log_of (try_selectors env url sels st cache w)) =
     (case outcome (try_selectors env url sels st cache w) of
        Returns (Some n) \<Rightarrow> [n]
      | _ \<Rightarrow> [])"
    using try_selectors_navigations [of env url sels st cache w] by (simp add: result_list_def)
  moreover from try_selectors_probes [of st sels env url cache w]
  have "\<exists>answers rest.
      length answers =
        length (rank_selectors (filter (not_clicked (get_list (already_clicked st))) sels)) \<and>
      plan (get_list (already_clicked st))
        (zip answers (rank_selectors (filter (not_clicked (get_list (already_clicked st))) sels))) =
        probes (log_of (try_selectors env url sels st cache w)) @ rest \<and>
      (outcome (try_selectors env url sels st cache w) = Returns None \<and>
       (\<exists>h. PageContent h \<in> set (log_of (try_selectors env url sels st cache w))) \<longrightarrow>
         rest = []) \<and>
      (\<forall>n. outcome (try_selectors env url sels st cache w) = Returns (Some n) \<longrightarrow>
         probes (log_of (try_selectors env url sels st cache w)) \<noteq> [] \<and>
         last (probes (log_of (try_selectors env url sels st cache w))) = nav_selector n)"
    unfolding follows_plan_if_loaded_def by blast
  ultimately show ?thesis by blast
qed

text \<open>
  The amended C5 at the small site. The call that starts on \<open>http://site/\<close> ends with the
  navigation of \<open>#go\<close>, the one its log confirms. The call that starts on the page the
  clicks do not leave ends without an outcome: both clicks read the same URL before and
  after, the log confirms no navigation, and the two selectors were probed in the order of
  the plan, to its end.
\<close>

theorem navigation_outcome_witness:
  "outcome (try_selectors (site False) ''http://site/'' go_button fresh_state Map.empty 0) =
     Returns (Some \<lparr>nav_url = ''http://site/apply'', nav_html = ''<html></html>'',
                     nav_selector = ''#go''\<rparr>) \<and>
   navigations (log_of (try_selectors (site False) ''http://site/'' go_button fresh_state Map.empty 0)) =
     [\<lparr>nav_url = ''http://site/apply'', nav_html = ''<html></html>'', nav_selector = ''#go''\<rparr>] \<and>
   outcome (try_selectors (site False) ''http://site/apply'' two_buttons fresh_state Map.empty (Suc 0)) =
     Returns None \<and>
   PageContent (Some ''<html></html>'')
     \<in> set (log_of (try_selectors (site False) ''http://site/apply'' two_buttons fresh_state
                Map.empty (Suc 0))) \<and>
   UrlAfterClick ''#go'' ''http://site/apply'' ''http://site/apply''
     \<in> set (log_of (try_selectors (site False) ''http://site/apply'' two_buttons fresh_state
                Map.empty (Suc 0))) \<and>
   navigations (log_of (try_selectors (site False) ''http://site/apply'' two_buttons fresh_state
                Map.empty (Suc 0))) = [] \<and>
   probes (log_of (try_selectors (site False) ''http://site/apply'' two_buttons fresh_state
                Map.empty (Suc 0))) = [''#go'', ''#other''] \<and>
   (\<exists>answers. length answers = 2 \<and>
      plan [] (zip answers two_buttons) = [''#go'', ''#other''])"
proof -
  let ?R0 = "try_selectors (site False) ''http://site/'' go_button fresh_state Map.empty 0"
  let ?R1 = "try_selectors (site False) ''http://site/apply'' two_buttons fresh_state
                Map.empty (Suc 0)"
  let ?n = "\<lparr>nav_url = ''http://site/apply'', nav_html = ''<html></html>'', nav_selector = ''#go''\<rparr>"
  have a: "outcome ?R0 = Returns (Some ?n)"
    by (simp add: site_run_navigates outcome_def)
  have b: "outcome ?R1 = Returns None"
    by (simp add: site_run_no_navigation outcome_def)
  have c: "PageContent (Some ''<html></html>'') \<in> set (log_of ?R1)"
    by (simp add: site_run_no_navigation log_of_def)
  have d: "UrlAfterClick ''#go'' ''http://site/apply'' ''http://site/apply'' \<in> set (log_of ?R1)"
    by (simp add: site_run_no_navigation log_of_def)
  have e: "probes (log_of ?R1) = [''#go'', ''#other'']"
    by (simp add: site_run_no_navigation log_of_def probes_def)
  have g: "get_list (already_clicked fresh_state) = []"
    by (simp add: fresh_state_def get_list_def)
  have f: "filter (not_clicked []) two_buttons = two_buttons"
    by (simp add: not_clicked_def two_buttons_def)
  note t0 = navigation_outcome [of "site False" "''http://site/''" go_button fresh_state Map.empty 0]
  note t1 = navigation_outcome [of "site False" "''http://site/apply''" two_buttons fresh_state
      Map.empty "Suc 0"]
  from t0 a have n0: "navigations (log_of ?R0) = [?n]" by simp
  from t1 b have n1: "navigations (log_of ?R1) = []" by simp
  from t1 b c obtain answers where
    "length answers = length (rank_selectors two_buttons)"
    and "plan [] (zip answers (rank_selectors two_buttons)) = probes (log_of ?R1)"
    unfolding g f by auto
  then have "length answers = 2 \<and> plan [] (zip answers two_buttons) = [''#go'', ''#other'']"
    using e by (simp add: rank_two_buttons) (simp add: two_buttons_def)
  then have p: "\<exists>answers. length answers = 2 \<and>
      plan [] (zip answers two_buttons) = [''#go'', ''#other'']"
    by blast
  from a n0 b c d n1 e p show ?thesis by blast
qed





text \<open>
  C7: a call that returns a navigation result has appended the clicked selector to
  \<open>already_clicked\<close> and the new URL to \<open>visited_urls\<close>, and nothing else to either list; a
  call that ends in any other way (no outcome, or an exception) leaves the state as it
  was; so the state changes only once a navigation is confirmed, and no list ever loses
  an entry.
\<close>

theorem session_memory_grows_on_success_only:
  "(\<forall>n. outcome (try_selectors env url sels st cache w) = Returns (Some n) \<longrightarrow>
      already_clicked (state_after (try_selectors env url sels st cache w)) =
        Some (get_list (already_clicked st) @ [nav_selector n]) \<and>
      visited_urls (state_after (try_selectors env url sels st cache w)) =
        Some (get_list (visited_urls st) @ [nav_url n])) \<and>
   ((\<forall>n. outcome (try_selectors env url sels st cache w) \<noteq> Returns (Some n)) \<longrightarrow>
      state_after (try_selectors env url sels st cache w) = st) \<and>
   (\<exists>xs. get_list (already_clicked (state_after (try_selectors env url sels st cache w))) =
      get_list (already_clicked st) @ xs) \<and>
   (\<exists>ys. get_list (visited_urls (state_after (try_selectors env url sels st cache w))) =
      get_list (visited_urls st) @ ys)"
proof -
  let ?r = "outcome (try_selectors env url sels st cache w)"
  let ?st = "state_after (try_selectors env url sels st cache w)"
  have c: "committed ?r st ?st" by (rule try_selectors_state)
  show ?thesis
  proof (cases ?r)
    case Raises
    with c have "?st = st" by (simp add: committed_def)
    with Raises show ?thesis by simp
  next
    case (Returns o1)
    show ?thesis
    proof (cases o1)
      case None
      with c Returns have "?st = st" by (simp add: committed_def)
      with Returns None show ?thesis by simp
    next
      case (Some n)
      with c Returns have "?st = record_navigation (nav_selector n) (nav_url n) st"
        by (simp add: committed_def)
      with Returns Some show ?thesis by (simp add: record_navigation_def get_list_def)
    qed
  qed
qed

text \<open>
  C7 at the small site: the call that navigates records \<open>#go\<close> and \<open>http://site/apply\<close>; the
  call that ends without a result leaves the state as it was.
\<close>

theorem session_memory_grows_on_success_only_witness:
  "outcome (try_selectors (site False) ''http://site/'' go_button fresh_state Map.empty 0) =
     Returns (Some \<lparr>nav_url = ''http://site/apply'', nav_html = ''<html></html>'',
                     nav_selector = ''#go''\<rparr>) \<and>
   already_clicked (state_after
       (try_selectors (site False) ''http://site/'' go_button fresh_state Map.empty 0)) =
     Some [''#go''] \<and>
   visited_urls (state_after
       (try_selectors (site False) ''http://site/'' go_button fresh_state Map.empty 0)) =
     Some [''http://site/'', ''http://site/apply''] \<and>
   outcome (try_selectors (site True) ''http://site/'' go_button fresh_state Map.empty 0) =
     Returns None \<and>
   state_after (try_selectors (site True) ''http://site/'' go_button fresh_state Map.empty 0) =
     fresh_state"
proof -
  let ?n = "\<lparr>nav_url = ''http://site/apply'', nav_html = ''<html></html>'', nav_selector = ''#go''\<rparr>"
  have a: "outcome (try_selectors (site False) ''http://site/'' go_button fresh_state Map.empty 0) =
     Returns (Some ?n)"
    by (simp add: site_run_navigates outcome_def)
  have b: "outcome (try_selectors (site True) ''http://site/'' go_button fresh_state Map.empty 0) =
     Returns None"
    by (simp add: site_run_content_fails outcome_def)
  note t1 = session_memory_grows_on_success_only
    [of "site False" "''http://site/''" go_button fresh_state Map.empty 0]
  note t2 = session_memory_grows_on_success_only
    [of "site True" "''http://site/''" go_button fresh_state Map.empty 0]
  from t1 a have
    "already_clicked (state_after
       (try_selectors (site False) ''http://site/'' go_button fresh_state Map.empty 0)) =
     Some (get_list (already_clicked fresh_state) @ [nav_selector ?n])"
    and "visited_urls (state_after
       (try_selectors (site False) ''http://site/'' go_button fresh_state Map.empty 0)) =
     Some (get_list (visited_urls fresh_state) @ [nav_url ?n])"
    by blast+
  then have c: "already_clicked (state_after
       (try_selectors (site False) ''http://site/'' go_button fresh_state Map.empty 0)) =
     Some [''#go'']"
    and d: "visited_urls (state_after
       (try_selectors (site False) ''http://site/'' go_button fresh_state Map.empty 0)) =
     Some [''http://site/'', ''http://site/apply'']"
    by (simp_all add: fresh_state_def get_list_def)
  from t2 b have e:
    "state_after (try_selectors (site True) ''http://site/'' go_button fresh_state Map.empty 0) =
     fresh_state"
    by simp
  from a c d b e show ?thesis by blast
qed

text \<open>
  C8: for a candidate with a non-empty text \<open>t\<close>, whatever else it carries and whatever the
  LLM helper returned, the synthesized list holds the exact-text XPath, the contains-text
  XPath, the normalize-space XPath, the XPaths scoped to \<open>button\<close>, \<open>a\<close> and
  \<open>input[@value=]\<close>, and the has-text selectors for \<open>a\<close>, \<open>button\<close> and \<open>[role="button"]\<close>.
  For a candidate of nothing but the text, the list is the helper's selectors followed by
  the ten text strategies in the order of the source. Synthesis is a total function: a
  candidate without a selector, a text or attributes gives the empty list, and a candidate
  of a selector alone gives that selector alone.
\<close>

theorem synthesis_of_text_candidate:
  assumes "dict_get s ''text'' '''' = t" and "t \<noteq> []"
  shows \<open>set [strategy t (''//*[text()="'' @ t @ ''"]''),
              strategy t (''//*[contains(text(),"'' @ t @ ''")]''),
              strategy t (''//*[normalize-space()="'' @ t @ ''"]''),
              strategy t (''//button[contains(text(),"'' @ t @ ''")]''),
              strategy t (''//a[contains(text(),"'' @ t @ ''")]''),
              strategy t (''//input[@value="'' @ t @ ''"]''),
              strategy t (''a:has-text("'' @ t @ ''")''),
              strategy t (''button:has-text("'' @ t @ ''")''),
              strategy t (''[role="button"]:has-text("'' @ t @ ''")'')]
           \<subseteq> set (synthesize llm s) \<and>
         synthesize llm [(''text'', t)] =
           llm @
           [strategy t (''//button[contains(text(),"'' @ t @ ''")]''),
            strategy t (''//a[contains(text(),"'' @ t @ ''")]''),
            strategy t (''//input[@value="'' @ t @ ''"]''),
            strategy t (''//*[text()="'' @ t @ ''"]''),
            strategy t (''a:has-text("'' @ t @ ''")''),
            strategy t (''button:has-text("'' @ t @ ''")''),
            strategy t (''[role="button"]:has-text("'' @ t @ ''")''),
            strategy t (''//*[contains(text(),"'' @ t @ ''")]''),
            strategy t (''//*[normalize-space()="'' @ t @ ''"]''),
            strategy t (''[title="'' @ t @ ''"]'')] \<and>
         synthesize llm [] = [] \<and>
         synthesize llm [(''selector'', t)] = [strategy [] t]\<close>
proof -
  have 1: \<open>set [strategy t (''//*[text()="'' @ t @ ''"]''),
              strategy t (''//*[contains(text(),"'' @ t @ ''")]''),
              strategy t (''//*[normalize-space()="'' @ t @ ''"]''),
              strategy t (''//button[contains(text(),"'' @ t @ ''")]''),
              strategy t (''//a[contains(text(),"'' @ t @ ''")]''),
              strategy t (''//input[@value="'' @ t @ ''"]''),
              strategy t (''a:has-text("'' @ t @ ''")''),
              strategy t (''button:has-text("'' @ t @ ''")''),
              strategy t (''[role="button"]:has-text("'' @ t @ ''")'')]
           \<subseteq> set (synthesize llm s)\<close>
    using assms unfolding synthesize_def Let_def by simp
  have 2: \<open>synthesize llm [(''text'', t)] =
           llm @
           [strategy t (''//button[contains(text(),"'' @ t @ ''")]''),
            strategy t (''//a[contains(text(),"'' @ t @ ''")]''),
            strategy t (''//input[@value="'' @ t @ ''"]''),
            strategy t (''//*[text()="'' @ t @ ''"]''),
            strategy t (''a:has-text("'' @ t @ ''")''),
            strategy t (''button:has-text("'' @ t @ ''")''),
            strategy t (''[role="button"]:has-text("'' @ t @ ''")''),
            strategy t (''//*[contains(text(),"'' @ t @ ''")]''),
            strategy t (''//*[normalize-space()="'' @ t @ ''"]''),
            strategy t (''[title="'' @ t @ ''"]'')]\<close>
    using assms(2) by (simp add: synthesize_def Let_def dict_get_def named_attrs_def)
  have 3: "synthesize llm [] = []"
    by (simp add: synthesize_def Let_def dict_get_def named_attrs_def)
  have 4: "synthesize llm [(''selector'', t)] = [strategy [] t]"
    using assms(2) by (simp add: synthesize_def Let_def dict_get_def named_attrs_def)
  from 1 2 3 4 show ?thesis by blast
qed

text \<open>C8 for the label \<open>Apply Now\<close> of the spec, with no selector from the helper.\<close>

theorem synthesis_of_text_candidate_witness:
  \<open>dict_get [(''text'', ''Apply Now'')] ''text'' '''' = ''Apply Now'' \<and> ''Apply Now'' \<noteq> [] \<and>
   map (\<lambda>d. dict_get d ''selector'' '''') (synthesize [] [(''text'', ''Apply Now'')]) =
     [''//button[contains(text(),"Apply Now")]'',
      ''//a[contains(text(),"Apply Now")]'',
      ''//input[@value="Apply Now"]'',
      ''//*[text()="Apply Now"]'',
      ''a:has-text("Apply Now")'',
      ''button:has-text("Apply Now")'',
      ''[role="button"]:has-text("Apply Now")'',
      ''//*[contains(text(),"Apply Now")]'',
      ''//*[normalize-space()="Apply Now"]'',
      ''[title="Apply Now"]'']\<close>
proof -
  have h1: "dict_get [(''text'', ''Apply Now'')] ''text'' '''' = ''Apply Now''"
    by (simp add: dict_get_def)
  have h2: "''Apply Now'' \<noteq> []" by simp
  from synthesis_of_text_candidate [OF h1 h2, of "[]"]
  have \<open>map (\<lambda>d. dict_get d ''selector'' '''') (synthesize [] [(''text'', ''Apply Now'')]) =
     [''//button[contains(text(),"Apply Now")]'',
      ''//a[contains(text(),"Apply Now")]'',
      ''//input[@value="Apply Now"]'',
      ''//*[text()="Apply Now"]'',
      ''a:has-text("Apply Now")'',
      ''button:has-text("Apply Now")'',
      ''[role="button"]:has-text("Apply Now")'',
      ''//*[contains(text(),"Apply Now")]'',
      ''//*[normalize-space()="Apply Now"]'',
      ''[title="Apply Now"]'']\<close>
    by (simp add: strategy_def dict_get_def)
  with h1 h2 show ?thesis by blast
qed




end
